theory Spec2Isabelle
  imports Main "HOL-Library.Sublist" "HOL-Library.Multiset"
begin

chapter \<open>Model\<close>

section \<open>Searchable transformer: allowable instance types\<close>

text \<open>
  Source: \<^verbatim>\<open>packages/amplify-graphql-searchable-transformer/src/constants.ts\<close>.
  The module-private array \<^verbatim>\<open>elasticsearch_instance_types\<close> is copied element by
  element, in source order.
\<close>

definition elasticsearch_instance_types :: "string list" where
  "elasticsearch_instance_types =
  [
   ''t2.small.elasticsearch'', ''t2.medium.elasticsearch'', ''c4.large.elasticsearch'',
   ''c4.xlarge.elasticsearch'', ''c4.2xlarge.elasticsearch'', ''c4.4xlarge.elasticsearch'',
   ''c4.8xlarge.elasticsearch'', ''m3.medium.elasticsearch'', ''m3.large.elasticsearch'',
   ''m3.xlarge.elasticsearch'', ''m3.2xlarge.elasticsearch'', ''m4.large.elasticsearch'',
   ''m4.xlarge.elasticsearch'', ''m4.2xlarge.elasticsearch'', ''m4.4xlarge.elasticsearch'',
   ''m4.10xlarge.elasticsearch'', ''r3.large.elasticsearch'', ''r3.xlarge.elasticsearch'',
   ''r3.2xlarge.elasticsearch'', ''r3.4xlarge.elasticsearch'', ''r3.8xlarge.elasticsearch'',
   ''r4.large.elasticsearch'', ''r4.xlarge.elasticsearch'', ''r4.2xlarge.elasticsearch'',
   ''r4.4xlarge.elasticsearch'', ''r4.8xlarge.elasticsearch'', ''r4.16xlarge.elasticsearch'',
   ''i2.xlarge.elasticsearch'', ''i2.2xlarge.elasticsearch'', ''i3.large.elasticsearch'',
   ''i3.xlarge.elasticsearch'', ''i3.2xlarge.elasticsearch'', ''i3.4xlarge.elasticsearch'',
   ''i3.8xlarge.elasticsearch'', ''i3.16xlarge.elasticsearch'', ''r6gd.12xlarge.elasticsearch'',
   ''ultrawarm1.xlarge.elasticsearch'', ''m5.4xlarge.elasticsearch'', ''t3.xlarge.elasticsearch'',
   ''m6g.xlarge.elasticsearch'', ''m6g.12xlarge.elasticsearch'', ''t2.micro.elasticsearch'',
   ''r6gd.16xlarge.elasticsearch'', ''d2.2xlarge.elasticsearch'', ''t3.micro.elasticsearch'',
   ''m5.large.elasticsearch'', ''d2.4xlarge.elasticsearch'', ''t3.small.elasticsearch'',
   ''c5.2xlarge.elasticsearch'', ''c6g.2xlarge.elasticsearch'', ''d2.8xlarge.elasticsearch'',
   ''c5.4xlarge.elasticsearch'', ''t4g.medium.elasticsearch'', ''c6g.4xlarge.elasticsearch'',
   ''c6g.xlarge.elasticsearch'', ''c6g.12xlarge.elasticsearch'', ''c5.xlarge.elasticsearch'',
   ''c5.large.elasticsearch'', ''t4g.small.elasticsearch'', ''c5.9xlarge.elasticsearch'',
   ''c6g.8xlarge.elasticsearch'', ''c6g.large.elasticsearch'', ''d2.xlarge.elasticsearch'',
   ''ultrawarm1.medium.elasticsearch'', ''t3.nano.elasticsearch'', ''t3.medium.elasticsearch'',
   ''m6g.2xlarge.elasticsearch'', ''t3.2xlarge.elasticsearch'', ''c5.18xlarge.elasticsearch'',
   ''m6g.4xlarge.elasticsearch'', ''r6gd.2xlarge.elasticsearch'', ''m5.xlarge.elasticsearch'',
   ''r6gd.4xlarge.elasticsearch'', ''r6g.2xlarge.elasticsearch'', ''r5.2xlarge.elasticsearch'',
   ''m5.12xlarge.elasticsearch'', ''m6g.8xlarge.elasticsearch'', ''m6g.large.elasticsearch'',
   ''m5.24xlarge.elasticsearch'', ''r6g.4xlarge.elasticsearch'', ''t3.large.elasticsearch'',
   ''r5.4xlarge.elasticsearch'', ''ultrawarm1.large.elasticsearch'', ''r6gd.8xlarge.elasticsearch'',
   ''r6gd.large.elasticsearch'', ''r6g.xlarge.elasticsearch'', ''r5.xlarge.elasticsearch'',
   ''r6g.12xlarge.elasticsearch'', ''r5.12xlarge.elasticsearch'', ''m5.2xlarge.elasticsearch'',
   ''r6gd.xlarge.elasticsearch'', ''r6g.8xlarge.elasticsearch'', ''r6g.large.elasticsearch'',
   ''r5.24xlarge.elasticsearch'', ''r5.large.elasticsearch''
  ]"

text \<open>
  JavaScript's \<^verbatim>\<open>String.prototype.replace(pattern, replacement)\<close> with a string
  pattern: only the first occurrence of the pattern is replaced, scanning from the left;
  a string without the pattern is returned as it is. (The replacement used by the source,
  \<^verbatim>\<open>'search'\<close>, contains no \<^verbatim>\<open>$\<close>, so no replacement pattern is expanded.)
\<close>

fun js_replace :: "string \<Rightarrow> string \<Rightarrow> string \<Rightarrow> string" where
  "js_replace pat rep [] = (if pat = [] then rep else [])"
| "js_replace pat rep (c # cs) =
     (if prefix pat (c # cs) then rep @ drop (length pat) (c # cs)
      else c # js_replace pat rep cs)"

text \<open>
  \<^verbatim>\<open>elasticsearch_instance_types.concat(elasticsearch_instance_types.map((type) =>
  type.replace('elasticsearch', 'search')))\<close>
\<close>

definition ALLOWABLE_SEARCHABLE_INSTANCE_TYPES :: "string list" where
  "ALLOWABLE_SEARCHABLE_INSTANCE_TYPES =
     elasticsearch_instance_types
       @ map (\<lambda>type. js_replace ''elasticsearch'' ''search'' type) elasticsearch_instance_types"

section \<open>The AmplifyGraphqlApi construct\<close>

text \<open>
  Source: the \<^verbatim>\<open>AmplifyGraphqlApi\<close> class (constructor and the module-level function
  \<^verbatim>\<open>validateNoOtherAmplifyGraphqlApiInStack\<close>).

  A construct is a JavaScript object; the source compares constructs with \<^verbatim>\<open>!==\<close>,
  which is reference identity, so a construct is modelled by its reference. A thrown
  \<^verbatim>\<open>new Error(message)\<close> is the value \<open>Error message\<close>. A JavaScript string is the
  list of its code units, so that \<^verbatim>\<open>.length\<close> is the length of the list.
\<close>

type_synonym construct = nat

datatype error = Error string

text \<open>
  The properties whose value decides what the constructor does:
  \<^verbatim>\<open>props.definition.schema\<close>, \<^verbatim>\<open>props.apiName\<close> (optional) and
  \<^verbatim>\<open>props.conflictResolution\<close> (optional; \<^verbatim>\<open>convertToResolverConfig\<close> is called only
  when it is given). Every other property is only handed on to a collaborator and is kept
  opaque in \<open>others\<close>.
\<close>

record 'p AmplifyGraphqlApiProps =
  definition_schema :: string
  apiName :: "string option"
  conflictResolution :: "'p option"
  others :: 'p

text \<open>
  The argument object of \<^verbatim>\<open>executeTransform\<close>: \<^verbatim>\<open>scope: this\<close>,
  \<^verbatim>\<open>synthParameters.amplifyEnvironmentName\<close>, \<^verbatim>\<open>synthParameters.apiName\<close>
  (\<^verbatim>\<open>props.apiName ?? id\<close>), \<^verbatim>\<open>schema: definition.schema\<close>, and the remaining
  entries, all computed from the opaque properties.
\<close>

record 'p transform_args =
  arg_scope :: construct
  arg_amplifyEnvironmentName :: string
  arg_apiName :: string
  arg_schema :: string
  arg_others :: 'p

text \<open>
  The functions the constructor calls are imported from modules that are not among the
  sources at hand (\<^verbatim>\<open>./internal\<close>, \<^verbatim>\<open>./internal/construct-tree\<close>,
  \<^verbatim>\<open>./internal/user-defined-slots\<close>, \<^verbatim>\<open>@aws-amplify/graphql-transformer\<close>,
  \<^verbatim>\<open>constructs\<close>). They are parameters of the model:
  \<^item> \<open>superConstruct scope id\<close> is \<^verbatim>\<open>super(scope, id)\<close>; on success it yields the
    reference of the new node \<^verbatim>\<open>this\<close>;
  \<^item> \<open>getStackForScope scope getRootStack\<close> yields the (root) stack of a scope;
  \<^item> \<open>walkAndProcessNodes root\<close> lists the nodes that \<^verbatim>\<open>walkAndProcessNodes(root, f)\<close>
    hands to its callback \<^verbatim>\<open>f\<close>, in call order;
  \<^item> \<open>instanceofAmplifyGraphqlApi node\<close> is \<^verbatim>\<open>node instanceof AmplifyGraphqlApi\<close>;
  \<^item> \<open>tryGetContext node key\<close> is \<^verbatim>\<open>node.node.tryGetContext(key)\<close>, with \<open>None\<close> for
    \<^verbatim>\<open>undefined\<close> and \<^verbatim>\<open>null\<close> (the two values \<^verbatim>\<open>??\<close> replaces);
  \<^item> every other collaborator either returns (\<open>None\<close>) or throws (\<open>Some e\<close>).
\<close>

record 'p collaborators =
  superConstruct :: "construct \<Rightarrow> string \<Rightarrow> error + construct"
  getStackForScope :: "construct \<Rightarrow> bool \<Rightarrow> error + construct"
  walkAndProcessNodes :: "construct \<Rightarrow> construct list"
  instanceofAmplifyGraphqlApi :: "construct \<Rightarrow> bool"
  tryGetContext :: "construct \<Rightarrow> string \<Rightarrow> string option"
  addAmplifyMetadataToStackDescription :: "construct \<Rightarrow> error option"
  convertAuthorizationModesToTransformerAuthConfig :: "'p \<Rightarrow> error option"
  validateFunctionSlots :: "'p \<Rightarrow> error option"
  separateSlots :: "'p \<Rightarrow> error option"
  newAssetManager :: "error option"
  parseUserDefinedSlots :: "'p \<Rightarrow> error option"
  convertToResolverConfig :: "'p \<Rightarrow> error option"
  executeTransform :: "'p transform_args \<Rightarrow> error option"
  newCodegenAssets :: "construct \<Rightarrow> string \<Rightarrow> error option"
  getGeneratedResources :: "construct \<Rightarrow> error option"
  getGeneratedFunctionSlots :: "error option"
  storeOutput :: "construct \<Rightarrow> error option"

text \<open>The collaborator calls the constructor makes, recorded in the order it makes them.\<close>

datatype 'p call =
    AddAmplifyMetadataToStackDescription construct
  | ConvertAuthorizationModesToTransformerAuthConfig
  | ValidateFunctionSlots
  | SeparateSlots
  | NewAssetManager
  | ParseUserDefinedSlots
  | ConvertToResolverConfig
  | ExecuteTransform "'p transform_args"
  | NewCodegenAssets
  | GetGeneratedResources
  | GetGeneratedFunctionSlots
  | StoreOutput

text \<open>
  \<^verbatim>\<open>
  const validateNoOtherAmplifyGraphqlApiInStack = (scope: Construct): void => {
    const rootStack = getStackForScope(scope, true);
    let wasOtherAmplifyGraphlApiFound = false;
    walkAndProcessNodes(rootStack, (node: Construct) => {
      if (node instanceof AmplifyGraphqlApi && scope !== node) {
        wasOtherAmplifyGraphlApiFound = true;
      }
    });
    if (wasOtherAmplifyGraphlApiFound) {
      throw new Error('Only one AmplifyGraphqlApi is expected in a stack');
    }
  };
  \<close>
  The callback mutates the flag; the walk is a left fold of the callback over the visited
  nodes.
\<close>

definition validateNoOtherAmplifyGraphqlApiInStack ::
  "('p, 'z) collaborators_scheme \<Rightarrow> construct \<Rightarrow> error + unit" where
  "validateNoOtherAmplifyGraphqlApiInStack ext scope =
     (case getStackForScope ext scope True of
        Inl e \<Rightarrow> Inl e
      | Inr rootStack \<Rightarrow>
          (let wasOtherAmplifyGraphlApiFound =
                 foldl (\<lambda>found node.
                          if instanceofAmplifyGraphqlApi ext node \<and> scope \<noteq> node
                          then True else found)
                       False (walkAndProcessNodes ext rootStack)
           in if wasOtherAmplifyGraphlApiFound
              then Inl (Error ''Only one AmplifyGraphqlApi is expected in a stack'')
              else Inr ()))"

text \<open>
  Sequencing of one collaborator call: the call is recorded; when it throws, the exception
  leaves the constructor and nothing after it runs.
\<close>

fun invoke :: "'c \<Rightarrow> error option \<Rightarrow> 'c list \<times> (error + 'a) \<Rightarrow> 'c list \<times> (error + 'a)" where
  "invoke c (Some e) rest = ([c], Inl e)"
| "invoke c None rest = (c # fst rest, snd rest)"

text \<open>
  The constructor, statement by statement. The result pairs the collaborator calls made
  with either the thrown error or the constructed object \<^verbatim>\<open>this\<close>.
\<close>

definition AmplifyGraphqlApi ::
  "'p collaborators \<Rightarrow> construct \<Rightarrow> string \<Rightarrow> 'p AmplifyGraphqlApiProps
     \<Rightarrow> 'p call list \<times> (error + construct)" where
  "AmplifyGraphqlApi ext scope id' props =
     (case superConstruct ext scope id' of
        Inl e \<Rightarrow> ([], Inl e)
      | Inr this \<Rightarrow>
     (case validateNoOtherAmplifyGraphqlApiInStack ext this of
        Inl e \<Rightarrow> ([], Inl e)
      | Inr _ \<Rightarrow>
     invoke (AddAmplifyMetadataToStackDescription scope)
            (addAmplifyMetadataToStackDescription ext scope)
    (invoke ConvertAuthorizationModesToTransformerAuthConfig
            (convertAuthorizationModesToTransformerAuthConfig ext (others props))
    (invoke ValidateFunctionSlots (validateFunctionSlots ext (others props))
    (invoke SeparateSlots (separateSlots ext (others props))
    (let amplifyEnvironmentName =
           (case tryGetContext ext this ''amplifyEnvironmentName'' of
              Some v \<Rightarrow> v
            | None \<Rightarrow> ''NONE'')
     in if length amplifyEnvironmentName > 8
        then ([], Inl (Error (''or cdk --context env must have a length <= 8, found ''
                                @ amplifyEnvironmentName)))
        else
     invoke NewAssetManager (newAssetManager ext)
    (invoke ParseUserDefinedSlots (parseUserDefinedSlots ext (others props))
    ((case conflictResolution props of
        Some c \<Rightarrow> invoke ConvertToResolverConfig (convertToResolverConfig ext c)
      | None \<Rightarrow> (\<lambda>rest. rest))
    (let args = \<lparr> arg_scope = this,
                   arg_amplifyEnvironmentName = amplifyEnvironmentName,
                   arg_apiName = (case apiName props of Some n \<Rightarrow> n | None \<Rightarrow> id'),
                   arg_schema = definition_schema props,
                   arg_others = others props \<rparr>
     in
     invoke (ExecuteTransform args) (executeTransform ext args)
    (invoke NewCodegenAssets (newCodegenAssets ext this (definition_schema props))
    (invoke GetGeneratedResources (getGeneratedResources ext this)
    (invoke GetGeneratedFunctionSlots (getGeneratedFunctionSlots ext)
    (invoke StoreOutput (storeOutput ext this)
       ([], Inr this))))))))))))))"

subsection \<open>Example construct trees\<close>

text \<open>
  Two concrete construct trees. In both, node 0 is the root stack and \<^verbatim>\<open>super\<close> creates
  node 2; every collaborator returns normally. In \<open>stack_with_api\<close> the stack already
  holds the \<^verbatim>\<open>AmplifyGraphqlApi\<close> node 1; in \<open>stack_without_api\<close> it holds none. The
  context value \<^verbatim>\<open>amplifyEnvironmentName\<close> is given by the first argument.
\<close>

definition demo_collaborators ::
  "construct list \<Rightarrow> string option \<Rightarrow> unit collaborators" where
  "demo_collaborators nodes env =
     \<lparr> superConstruct = (\<lambda>scope id'. Inr 2),
       getStackForScope = (\<lambda>scope getRootStack. Inr 0),
       walkAndProcessNodes = (\<lambda>root. nodes),
       instanceofAmplifyGraphqlApi = (\<lambda>node. node = 1 \<or> node = 2),
       tryGetContext = (\<lambda>node key. if key = ''amplifyEnvironmentName'' then env else None),
       addAmplifyMetadataToStackDescription = (\<lambda>scope. None),
       convertAuthorizationModesToTransformerAuthConfig = (\<lambda>p. None),
       validateFunctionSlots = (\<lambda>p. None),
       separateSlots = (\<lambda>p. None),
       newAssetManager = None,
       parseUserDefinedSlots = (\<lambda>p. None),
       convertToResolverConfig = (\<lambda>p. None),
       executeTransform = (\<lambda>args. None),
       newCodegenAssets = (\<lambda>this modelSchema. None),
       getGeneratedResources = (\<lambda>this. None),
       getGeneratedFunctionSlots = None,
       storeOutput = (\<lambda>this. None) \<rparr>"

definition demo_props :: "unit AmplifyGraphqlApiProps" where
  "demo_props =
     \<lparr> definition_schema = ''type Todo @model { id: ID! }'',
       apiName = None,
       conflictResolution = None,
       others = () \<rparr>"

section \<open>Resolver accumulator\<close>

text \<open>
  The transformer core (the accumulator of resolver pipeline entries and the pipeline
  orchestrator) is not among the sources at hand; only its exports
  (\<^verbatim>\<open>amplify-graphql-transformer-core/src/index.ts\<close>) and tests that call it are. The
  definitions of this section and the next follow the design document (sections 3, 4.4, 4.5,
  6 and 7).
\<close>

text \<open>
  Modelled from the spec: the error taxonomy of the transformer core (section 7), which
  is missing from the sources. A validation error is a \<open>(location, message)\<close> pair; a
  slot collision identifies both contributors; an error raised by a hook is wrapped with
  the transformer name, the type and the field.
\<close>

datatype pipeline_error =
    ParseError string
  | ValidationError "(string \<times> string) list"
  | ConflictError string
  | SlotCollisionError string string
  | ConfigurationError string
  | HookError string string "string option" pipeline_error

text \<open>
  Modelled from the spec: \<^verbatim>\<open>ResolverPipelineEntry\<close> (section 3), missing from the
  sources: ``keyed by (TypeName, FieldName, Stage, Slot-index) \<open>\<rightarrow>\<close> ordered templated logic
  fragment contributed by a transformer''. The accumulator is the list of entries in
  the order they were contributed.
\<close>

record ResolverPipelineEntry =
  typeName :: string
  fieldName :: string
  stage :: string
  slotIndex :: nat
  contributorId :: string
  logic :: string

type_synonym accumulator = "ResolverPipelineEntry list"

text \<open>
  Modelled from the spec: \<^verbatim>\<open>addPipelineEntry\<close> (section 4.5), missing from the sources:
  ``\<^verbatim>\<open>addPipelineEntry(type, field, stage, contributorId, logic) -> slotIndex | fails
  with SlotCollisionError\<close>. Slot assignment is monotonic per (type,field,stage): first
  contributor gets slot 0, next gets slot 1, etc., regardless of which transformer calls
  it''; and section 3: ``no two transformers may claim the same (Type,Field,Stage,Slot):
  collision is a fatal configuration error''. The slot handed out is the number of entries
  already contributed to the (type, field, stage); the call fails when an entry already
  holds that slot.
\<close>

definition sameStage :: "string \<Rightarrow> string \<Rightarrow> string \<Rightarrow> ResolverPipelineEntry \<Rightarrow> bool" where
  "sameStage t f s e \<longleftrightarrow> typeName e = t \<and> fieldName e = f \<and> stage e = s"

definition addPipelineEntry ::
  "accumulator \<Rightarrow> string \<Rightarrow> string \<Rightarrow> string \<Rightarrow> string \<Rightarrow> string
     \<Rightarrow> pipeline_error + (nat \<times> accumulator)" where
  "addPipelineEntry acc t f s contributor lg =
     (let slot = length (filter (sameStage t f s) acc)
      in case find (\<lambda>e. sameStage t f s e \<and> slotIndex e = slot) acc of
           Some e \<Rightarrow> Inl (SlotCollisionError (contributorId e) contributor)
         | None \<Rightarrow>
             Inr (slot,
                  acc @ [\<lparr> typeName = t, fieldName = f, stage = s, slotIndex = slot,
                           contributorId = contributor, logic = lg \<rparr>]))"

text \<open>
  Modelled from the spec: a transformation run as the accumulator sees it (section 8:
  ``slot indices assigned across all contributing transformers in a run''), missing from
  the sources. The contributions of one run: each is one call of
  \<^verbatim>\<open>addPipelineEntry\<close>, by any transformer, in call order. \<open>addPipelineEntries\<close> makes
  the calls one after the other and collects the slot each call returned; the first
  failing call ends the run.
\<close>

record contribution =
  to_type :: string
  to_field :: string
  to_stage :: string
  by_contributor :: string
  with_logic :: string

definition contributesTo :: "string \<Rightarrow> string \<Rightarrow> string \<Rightarrow> contribution \<Rightarrow> bool" where
  "contributesTo t f s c \<longleftrightarrow> to_type c = t \<and> to_field c = f \<and> to_stage c = s"

fun addPipelineEntries ::
  "accumulator \<Rightarrow> contribution list \<Rightarrow> pipeline_error + (nat list \<times> accumulator)" where
  "addPipelineEntries acc [] = Inr ([], acc)"
| "addPipelineEntries acc (c # cs) =
     (case addPipelineEntry acc (to_type c) (to_field c) (to_stage c)
             (by_contributor c) (with_logic c) of
        Inl e \<Rightarrow> Inl e
      | Inr (slot, acc') \<Rightarrow>
          (case addPipelineEntries acc' cs of
             Inl e \<Rightarrow> Inl e
           | Inr (slots, acc'') \<Rightarrow> Inr (slot # slots, acc'')))"

text \<open>
  The slots handed to the contributions to one (type, field, stage), in call order.
\<close>

definition slotsOf ::
  "string \<Rightarrow> string \<Rightarrow> string \<Rightarrow> contribution list \<Rightarrow> nat list \<Rightarrow> nat list" where
  "slotsOf t f s cs slots = map snd (filter (\<lambda>(c, slot). contributesTo t f s c) (zip cs slots))"

text \<open>
  Modelled from the spec: the \<^verbatim>\<open>slotIndex\<close> part of a key (section 6), written in
  decimal as JavaScript renders a non-negative integer.
\<close>

definition digit :: "nat \<Rightarrow> char" where
  "digit d = char_of (48 + d)"

function show_nat :: "nat \<Rightarrow> string" where
  "show_nat n = (if n < 10 then [digit n] else show_nat (n div 10) @ [digit (n mod 10)])"
  by pat_completeness auto
termination
  by (relation "measure id") auto

declare show_nat.simps [simp del]

text \<open>
  Modelled from the spec: the single serialization function of the structured key
  (section 9) to the string form, missing from the sources; the format is the one of
  section 6, \<^verbatim>\<open>{Type}.{field}.{stage}.{slotIndex}.req.vtl\<close>.
\<close>

definition serializeKey :: "ResolverPipelineEntry \<Rightarrow> string" where
  "serializeKey e =
     typeName e @ ''.'' @ fieldName e @ ''.'' @ stage e @ ''.'' @ show_nat (slotIndex e)
       @ ''.req.vtl''"

text \<open>
  Modelled from the spec: \<^verbatim>\<open>finalize\<close> (section 4.5), missing from the sources:
  ``\<^verbatim>\<open>finalize(context) -> ResolverMap\<close> sorts slots ascending and produces the key
  format \<^verbatim>\<open>Type.field.stage.slotIndex\<close> for each entry''. The sort is the stable sort by
  slot index; the resolver map is the list of (key, logic text) pairs in that order.
\<close>

definition finalize :: "accumulator \<Rightarrow> (string \<times> string) list" where
  "finalize acc = map (\<lambda>e. (serializeKey e, logic e)) (sort_key slotIndex acc)"

text \<open>
  A GraphQL name (\<^verbatim>\<open>/[_A-Za-z][_0-9A-Za-z]*/\<close>) contains no dot; type names, field names and
  stage names are such names.
\<close>

definition dotFree :: "string \<Rightarrow> bool" where
  "dotFree s \<longleftrightarrow> CHR ''.'' \<notin> set s"

text \<open>
  The invariant of the accumulator: the slots held for each (type, field, stage), in
  contribution order, are \<open>0, 1, \<dots>\<close> without gap.
\<close>

definition dense :: "accumulator \<Rightarrow> bool" where
  "dense acc \<longleftrightarrow>
     (\<forall>t f s. map slotIndex (filter (sameStage t f s) acc)
               = [0 ..< length (filter (sameStage t f s) acc)])"

text \<open>Reading a decimal numeral back; the left inverse of \<open>show_nat\<close>.\<close>

definition read_nat :: "string \<Rightarrow> nat" where
  "read_nat s = foldl (\<lambda>a c. 10 * a + (of_char c - 48)) 0 s"

definition wellNamed :: "ResolverPipelineEntry \<Rightarrow> bool" where
  "wellNamed e \<longleftrightarrow> dotFree (typeName e) \<and> dotFree (fieldName e) \<and> dotFree (stage e)"

text \<open>
  Two contributions to the \<^verbatim>\<open>auth\<close> stage of \<^verbatim>\<open>Query.getPost\<close>, held out of slot order.
\<close>

definition demo_accumulator :: accumulator where
  "demo_accumulator =
     [\<lparr> typeName = ''Query'', fieldName = ''getPost'', stage = ''auth'', slotIndex = 1,
        contributorId = ''auth'', logic = ''## auth check'' \<rparr>,
      \<lparr> typeName = ''Query'', fieldName = ''getPost'', stage = ''auth'', slotIndex = 0,
        contributorId = ''model'', logic = ''## init'' \<rparr>]"

text \<open>
  Three contributions of one run: the model and the auth transformer both contribute to
  the \<^verbatim>\<open>auth\<close> stage of \<^verbatim>\<open>Query.getPost\<close>, and the auth transformer to its
  \<^verbatim>\<open>postAuth\<close> stage in between.
\<close>

definition demo_contributions :: "contribution list" where
  "demo_contributions =
     [\<lparr> to_type = ''Query'', to_field = ''getPost'', to_stage = ''auth'',
        by_contributor = ''model'', with_logic = ''## init'' \<rparr>,
      \<lparr> to_type = ''Query'', to_field = ''getPost'', to_stage = ''postAuth'',
        by_contributor = ''auth'', with_logic = ''## post auth'' \<rparr>,
      \<lparr> to_type = ''Query'', to_field = ''getPost'', to_stage = ''auth'',
        by_contributor = ''auth'', with_logic = ''## auth check'' \<rparr>]"

section \<open>Directive registry and pipeline orchestrator\<close>

text \<open>
  Modelled from the spec: the schema document model (section 3), missing from the
  sources. A directive carries a name and a mapping from argument names to
  literal, enum or list values (section 9: a tagged union); a field has a name, a type
  reference ``possibly list/non-null wrapped'', directives and an optional default value;
  a type definition has a name, a kind, fields and directives; a document is the ordered
  collection of its type definitions.
\<close>

datatype arg_value =
    StringValue string
  | IntValue int
  | FloatValue string
  | BoolValue bool
  | ListValue "arg_value list"
  | EnumValue string
  | NullValue

record Directive =
  directive_name :: string
  arguments :: "(string \<times> arg_value) list"

datatype type_kind = ObjectKind | InterfaceKind | EnumKind | InputKind | UnionKind | ScalarKind

datatype type_reference = NamedType string | ListType type_reference | NonNullType type_reference

record FieldDefinition =
  field_name :: string
  field_type :: type_reference
  field_directives :: "Directive list"
  default_value :: "arg_value option"

record TypeDefinition =
  type_name :: string
  kind :: type_kind
  type_fields :: "FieldDefinition list"
  type_directives :: "Directive list"

type_synonym SchemaDocument = "TypeDefinition list"

text \<open>
  Modelled from the spec: the directive registry (section 4.2), missing from the sources:
  ``\<^verbatim>\<open>register(directiveSpec)\<close> adds a directive name with its allowed argument schema
  and allowed location(s) (FIELD_DEFINITION, OBJECT, etc.)''. An argument of the schema is
  required or optional and accepts some values.
\<close>

datatype directive_location =
  OBJECT | FIELD_DEFINITION | INTERFACE | ENUM | INPUT_OBJECT | UNION | SCALAR

record ArgumentSpec =
  argument_name :: string
  required :: bool
  accepts :: "arg_value \<Rightarrow> bool"

record DirectiveSpec =
  spec_name :: string
  spec_arguments :: "ArgumentSpec list"
  spec_locations :: "directive_location list"

type_synonym registry = "DirectiveSpec list"

definition register :: "DirectiveSpec \<Rightarrow> registry \<Rightarrow> registry" where
  "register directiveSpec reg = reg @ [directiveSpec]"

text \<open>
  The one directive whose declaration is among the sources, \<^verbatim>\<open>PredictionsDirective\<close>:
  \<^verbatim>\<open>directive @predictions(actions: [PredictionsActions!]!) on FIELD_DEFINITION\<close>, with
  the enum \<^verbatim>\<open>PredictionsActions\<close> of \<^verbatim>\<open>identifyText\<close>, \<^verbatim>\<open>identifyLabels\<close>,
  \<^verbatim>\<open>convertTextToSpeech\<close> and \<^verbatim>\<open>translateText\<close>.
\<close>

definition PredictionsActions :: "string list" where
  "PredictionsActions = [''identifyText'', ''identifyLabels'', ''convertTextToSpeech'',
                         ''translateText'']"

fun isPredictionsActionList :: "arg_value \<Rightarrow> bool" where
  "isPredictionsActionList (ListValue vs) =
     list_all (\<lambda>v. case v of EnumValue a \<Rightarrow> a \<in> set PredictionsActions | _ \<Rightarrow> False) vs"
| "isPredictionsActionList _ = False"

definition PredictionsDirective :: DirectiveSpec where
  "PredictionsDirective =
     \<lparr> spec_name = ''predictions'',
       spec_arguments = [\<lparr> argument_name = ''actions'', required = True,
                           accepts = isPredictionsActionList \<rparr>],
       spec_locations = [FIELD_DEFINITION] \<rparr>"

text \<open>
  Modelled from the spec: \<^verbatim>\<open>validate\<close> (section 4.2), missing from the sources:
  ``\<^verbatim>\<open>validate(doc) -> ValidationResult\<close> checks: (a) every directive used resolves to a
  registered spec, (b) arguments match the spec's required/optional/type constraints,
  (c) directive is applied only at a location its spec permits, (d) the document overall
  satisfies base GraphQL SDL well-formedness (type references resolve, no duplicate
  field names). Validation failures are collected (not fail-fast on first error) and
  returned as an ordered list of \<^verbatim>\<open>(location, message)\<close> pairs''. The order is document
  order.
\<close>

definition unknownDirective :: "string \<Rightarrow> string" where
  "unknownDirective d = ''Unknown directive @'' @ d"

definition checkArguments :: "string \<Rightarrow> DirectiveSpec \<Rightarrow> Directive \<Rightarrow> (string \<times> string) list" where
  "checkArguments loc sp d =
     concat (map (\<lambda>a. if required a \<and> map_of (arguments d) (argument_name a) = None
                       then [(loc, ''Missing argument '' @ argument_name a)] else [])
                 (spec_arguments sp))
     @ concat (map (\<lambda>(n, v).
                      case find (\<lambda>a. argument_name a = n) (spec_arguments sp) of
                        None \<Rightarrow> [(loc, ''Unknown argument '' @ n)]
                      | Some a \<Rightarrow> if accepts a v then []
                                  else [(loc, ''Bad value for argument '' @ n)])
                   (arguments d))"

definition checkDirective ::
  "registry \<Rightarrow> string \<Rightarrow> directive_location \<Rightarrow> Directive \<Rightarrow> (string \<times> string) list" where
  "checkDirective reg loc place d =
     (case find (\<lambda>sp. spec_name sp = directive_name d) reg of
        None \<Rightarrow> [(loc, unknownDirective (directive_name d))]
      | Some sp \<Rightarrow>
          checkArguments loc sp d
          @ (if place \<in> set (spec_locations sp) then []
             else [(loc, ''Directive @'' @ directive_name d @ '' is not allowed here'')]))"

fun locationOfKind :: "type_kind \<Rightarrow> directive_location" where
  "locationOfKind ObjectKind = OBJECT"
| "locationOfKind InterfaceKind = INTERFACE"
| "locationOfKind EnumKind = ENUM"
| "locationOfKind InputKind = INPUT_OBJECT"
| "locationOfKind UnionKind = UNION"
| "locationOfKind ScalarKind = SCALAR"

fun namedType :: "type_reference \<Rightarrow> string" where
  "namedType (NamedType n) = n"
| "namedType (ListType t) = namedType t"
| "namedType (NonNullType t) = namedType t"

definition builtInScalars :: "string list" where
  "builtInScalars = [''ID'', ''String'', ''Int'', ''Float'', ''Boolean'']"

definition checkField ::
  "registry \<Rightarrow> SchemaDocument \<Rightarrow> TypeDefinition \<Rightarrow> FieldDefinition \<Rightarrow> (string \<times> string) list" where
  "checkField reg doc ty f =
     (let loc = type_name ty @ ''.'' @ field_name f
      in concat (map (checkDirective reg loc FIELD_DEFINITION) (field_directives f))
         @ (if namedType (field_type f) \<in> set (map type_name doc) \<union> set builtInScalars
            then [] else [(loc, ''Unknown type '' @ namedType (field_type f))]))"

definition checkType ::
  "registry \<Rightarrow> SchemaDocument \<Rightarrow> TypeDefinition \<Rightarrow> (string \<times> string) list" where
  "checkType reg doc ty =
     concat (map (checkDirective reg (type_name ty) (locationOfKind (kind ty)))
                 (type_directives ty))
     @ (if distinct (map field_name (type_fields ty)) then []
        else [(type_name ty, ''Duplicate field name'')])
     @ concat (map (checkField reg doc ty) (type_fields ty))"

definition validate :: "registry \<Rightarrow> SchemaDocument \<Rightarrow> (string \<times> string) list" where
  "validate reg doc = concat (map (checkType reg doc) doc)"

text \<open>The directive names a document uses, on its types and on their fields.\<close>

definition directivesUsed :: "SchemaDocument \<Rightarrow> string list" where
  "directivesUsed doc =
     concat (map (\<lambda>ty. map directive_name (type_directives ty)
                        @ concat (map (\<lambda>f. map directive_name (field_directives f)) (type_fields ty)))
                 doc)"

text \<open>
  Modelled from the spec: \<^verbatim>\<open>TransformerContext\<close> (section 3), missing from the sources:
  the ``aggregate owning SchemaDocument, the ResolverPipelineEntry set, the
  DataSourceStrategy mapping, and stack/parameter placement hints''.
\<close>

record TransformerContext =
  schema :: SchemaDocument
  resolvers :: accumulator
  dataSourceStrategies :: "(string \<times> string) list"
  placementHints :: "(string \<times> string) list"

text \<open>
  Modelled from the spec: the transformer plugin interface (section 4.3), missing from
  the sources: the directive names a transformer owns and its four hooks. A hook reads
  and mutates the context, or raises an error.
\<close>

record Transformer =
  transformer_name :: string
  ownedDirectives :: "string list"
  onTypeDefinition ::
    "TypeDefinition \<Rightarrow> Directive \<Rightarrow> TransformerContext \<Rightarrow> pipeline_error + TransformerContext"
  onFieldDefinition ::
    "TypeDefinition \<Rightarrow> FieldDefinition \<Rightarrow> Directive \<Rightarrow> TransformerContext
       \<Rightarrow> pipeline_error + TransformerContext"
  transformSchema :: "TransformerContext \<Rightarrow> pipeline_error + TransformerContext"
  generateResolvers :: "TransformerContext \<Rightarrow> pipeline_error + TransformerContext"

text \<open>
  A hook invocation, as the orchestrator records it: which transformer, which hook, on
  which node.
\<close>

datatype hook_call =
    OnTypeDefinition string string string
  | OnFieldDefinition string string string string
  | TransformSchema string
  | GenerateResolvers string

text \<open>
  Modelled from the spec: the states of the orchestrator (section 4.4), missing from the
  sources: ``\<^verbatim>\<open>Parsing \<rightarrow> Validating \<rightarrow> PerNodeTransform \<rightarrow> WholeSchemaTransform \<rightarrow>
  ResolverGeneration \<rightarrow> FinalValidation \<rightarrow> Done\<close>, with a terminal \<^verbatim>\<open>Failed\<close> state
  reachable from any non-terminal state''. The state of a run is the stage, the context,
  and the hook invocations made so far.
\<close>

datatype pipeline_stage =
    Parsing | Validating | PerNodeTransform | WholeSchemaTransform | ResolverGeneration
  | FinalValidation | Done | Failed pipeline_error

record pipeline_state =
  current :: pipeline_stage
  ctx :: TransformerContext
  invoked :: "hook_call list"

text \<open>
  Modelled from the spec: the inputs of a run (section 6): the parser and serializer of the document model
  (section 4.1; their code is missing and they are parameters), the registry, the ordered
  transformer list, the data source strategies and the placement hints.
\<close>

record pipeline_config =
  parse :: "string \<Rightarrow> pipeline_error + SchemaDocument"
  serialize :: "SchemaDocument \<Rightarrow> string"
  directiveRegistry :: registry
  transformers :: "Transformer list"
  strategies :: "(string \<times> string) list"
  hints :: "(string \<times> string) list"

fun isFailed :: "pipeline_stage \<Rightarrow> bool" where
  "isFailed (Failed e) = True"
| "isFailed _ = False"

text \<open>
  Modelled from the spec: one hook invocation (section 4.4): ``Any hook raising an error transitions the whole
  pipeline to \<^verbatim>\<open>Failed\<close> immediately (no partial output); the error is wrapped with the
  offending transformer name, type, and field''. Once the pipeline has failed no further
  hook is invoked.
\<close>

definition invokeHook ::
  "hook_call \<Rightarrow> (TransformerContext \<Rightarrow> pipeline_error + TransformerContext)
     \<Rightarrow> (pipeline_error \<Rightarrow> pipeline_error) \<Rightarrow> pipeline_state \<Rightarrow> pipeline_state" where
  "invokeHook call hook wrap st =
     (if isFailed (current st) then st
      else case hook (ctx st) of
             Inl e \<Rightarrow> st \<lparr> current := Failed (wrap e), invoked := invoked st @ [call] \<rparr>
           | Inr c \<Rightarrow> st \<lparr> ctx := c, invoked := invoked st @ [call] \<rparr>)"

text \<open>
  Modelled from the spec: the \<^verbatim>\<open>PerNodeTransform\<close> stage (section 4.4): ``for each
  transformer in registration order, for each type/field in document order, invoke the
  matching per-node hook if the node carries that transformer's owned directive''; a hook
  is ``invoked once per directive occurrence''. Nodes injected by a transformer are seen
  by the transformers that run after it, not by those that ran before: each transformer
  walks the document as it stands when its own pass begins.
\<close>

definition visitField :: "Transformer \<Rightarrow> TypeDefinition \<Rightarrow> FieldDefinition \<Rightarrow> pipeline_state \<Rightarrow> pipeline_state" where
  "visitField T ty f st =
     foldl (\<lambda>st d. invokeHook
                     (OnFieldDefinition (transformer_name T) (type_name ty) (field_name f)
                        (directive_name d))
                     (onFieldDefinition T ty f d)
                     (HookError (transformer_name T) (type_name ty) (Some (field_name f)))
                     st)
           st
           (filter (\<lambda>d. directive_name d \<in> set (ownedDirectives T)) (field_directives f))"

definition visitType :: "Transformer \<Rightarrow> TypeDefinition \<Rightarrow> pipeline_state \<Rightarrow> pipeline_state" where
  "visitType T ty st =
     foldl (\<lambda>st f. visitField T ty f st)
       (foldl (\<lambda>st d. invokeHook
                        (OnTypeDefinition (transformer_name T) (type_name ty) (directive_name d))
                        (onTypeDefinition T ty d)
                        (HookError (transformer_name T) (type_name ty) None)
                        st)
              st
              (filter (\<lambda>d. directive_name d \<in> set (ownedDirectives T)) (type_directives ty)))
       (type_fields ty)"

definition perNodeTransform :: "Transformer list \<Rightarrow> pipeline_state \<Rightarrow> pipeline_state" where
  "perNodeTransform Ts st =
     foldl (\<lambda>st T. foldl (\<lambda>st ty. visitType T ty st) st (schema (ctx st))) st Ts"

text \<open>
  Modelled from the spec: the \<^verbatim>\<open>WholeSchemaTransform\<close> and \<^verbatim>\<open>ResolverGeneration\<close> stages: the
  \<^verbatim>\<open>transformSchema\<close> hooks, then the \<^verbatim>\<open>generateResolvers\<close> hooks, each ``once per
  transformer'', ``in registration order''.
\<close>

definition wholeSchemaTransform :: "Transformer list \<Rightarrow> pipeline_state \<Rightarrow> pipeline_state" where
  "wholeSchemaTransform Ts st =
     foldl (\<lambda>st T. invokeHook (TransformSchema (transformer_name T)) (transformSchema T)
                      (HookError (transformer_name T) [] None) st)
           st Ts"

definition resolverGeneration :: "Transformer list \<Rightarrow> pipeline_state \<Rightarrow> pipeline_state" where
  "resolverGeneration Ts st =
     foldl (\<lambda>st T. invokeHook (GenerateResolvers (transformer_name T)) (generateResolvers T)
                      (HookError (transformer_name T) [] None) st)
           st Ts"

definition next_stage :: "pipeline_stage \<Rightarrow> pipeline_state \<Rightarrow> pipeline_state" where
  "next_stage s st = (if isFailed (current st) then st else st \<lparr> current := s \<rparr>)"

text \<open>
  Modelled from the spec: the transitions of the orchestrator (section 4.4).
  \<^item> ``\<^verbatim>\<open>Parsing \<rightarrow> Validating\<close>: on successful parse; \<^verbatim>\<open>Parsing \<rightarrow> Failed\<close> on parse error.''
  \<^item> ``\<^verbatim>\<open>Validating \<rightarrow> PerNodeTransform\<close>: only if Directive Registry validation returns
    zero errors; otherwise \<^verbatim>\<open>Validating \<rightarrow> Failed\<close> carrying the full error list.''
  \<^item> the three hook stages, each followed by the next stage unless a hook failed;
  \<^item> ``\<^verbatim>\<open>FinalValidation \<rightarrow> Done\<close>: schema re-validated against Directive Registry + SDL
    well-formedness; any violation \<open>\<rightarrow>\<close> \<^verbatim>\<open>Failed\<close>.''
  \<^verbatim>\<open>Done\<close> and \<^verbatim>\<open>Failed\<close> are terminal.
\<close>

definition advance :: "pipeline_config \<Rightarrow> string \<Rightarrow> pipeline_state \<Rightarrow> pipeline_state" where
  "advance cfg sdl st =
     (case current st of
        Parsing \<Rightarrow>
          (case parse cfg sdl of
             Inl e \<Rightarrow> st \<lparr> current := Failed e \<rparr>
           | Inr doc \<Rightarrow> st \<lparr> current := Validating, ctx := (ctx st) \<lparr> schema := doc \<rparr> \<rparr>)
      | Validating \<Rightarrow>
          (case validate (directiveRegistry cfg) (schema (ctx st)) of
             [] \<Rightarrow> st \<lparr> current := PerNodeTransform \<rparr>
           | e # es \<Rightarrow> st \<lparr> current := Failed (ValidationError (e # es)) \<rparr>)
      | PerNodeTransform \<Rightarrow> next_stage WholeSchemaTransform (perNodeTransform (transformers cfg) st)
      | WholeSchemaTransform \<Rightarrow>
          next_stage ResolverGeneration (wholeSchemaTransform (transformers cfg) st)
      | ResolverGeneration \<Rightarrow> next_stage FinalValidation (resolverGeneration (transformers cfg) st)
      | FinalValidation \<Rightarrow>
          (case validate (directiveRegistry cfg) (schema (ctx st)) of
             [] \<Rightarrow> st \<lparr> current := Done \<rparr>
           | e # es \<Rightarrow> st \<lparr> current := Failed (ValidationError (e # es)) \<rparr>)
      | Done \<Rightarrow> st
      | Failed e \<Rightarrow> st)"

definition initial_state :: "pipeline_config \<Rightarrow> pipeline_state" where
  "initial_state cfg =
     \<lparr> current = Parsing,
       ctx = \<lparr> schema = [], resolvers = [], dataSourceStrategies = strategies cfg,
                   placementHints = hints cfg \<rparr>,
       invoked = [] \<rparr>"

text \<open>
  Modelled from the spec: a run (section 4.4 and 6). It takes the six transitions from \<^verbatim>\<open>Parsing\<close>; it ends in \<^verbatim>\<open>Done\<close> or in
  \<^verbatim>\<open>Failed\<close>. The output (section 6) exists only in \<^verbatim>\<open>Done\<close>: the serialized schema
  and the finalized resolver map.
\<close>

definition run :: "pipeline_config \<Rightarrow> string \<Rightarrow> pipeline_state" where
  "run cfg sdl = (advance cfg sdl ^^ 6) (initial_state cfg)"

definition pipeline_output :: "pipeline_config \<Rightarrow> pipeline_state \<Rightarrow> (string \<times> (string \<times> string) list) option" where
  "pipeline_output cfg st =
     (if current st = Done
      then Some (serialize cfg (schema (ctx st)), finalize (resolvers (ctx st)))
      else None)"

subsection \<open>Example pipeline\<close>

text \<open>
  A document with one type, \<^verbatim>\<open>type Post @searchable { id: ID! }\<close>; a transformer that owns
  \<^verbatim>\<open>@searchable\<close> and contributes a resolver entry for \<^verbatim>\<open>Query.searchPosts\<close>; and two
  registries, one holding only \<^verbatim>\<open>@predictions\<close>, one holding \<^verbatim>\<open>@searchable\<close> as
  well.
\<close>

definition demo_document :: SchemaDocument where
  "demo_document =
     [\<lparr> type_name = ''Post'', kind = ObjectKind,
        type_fields = [\<lparr> field_name = ''id'', field_type = NonNullType (NamedType ''ID''),
                         field_directives = [], default_value = None \<rparr>],
        type_directives = [\<lparr> directive_name = ''searchable'', arguments = [] \<rparr>] \<rparr>]"

definition demo_transformer :: Transformer where
  "demo_transformer =
     \<lparr> transformer_name = ''searchable'',
       ownedDirectives = [''searchable''],
       onTypeDefinition = (\<lambda>ty d c. Inr c),
       onFieldDefinition = (\<lambda>ty f d c. Inr c),
       transformSchema = (\<lambda>c. Inr c),
       generateResolvers =
         (\<lambda>c. case addPipelineEntry (resolvers c) ''Query'' ''searchPosts'' ''auth''
                      ''searchable'' ''## search'' of
                 Inl e \<Rightarrow> Inl e
               | Inr (slot, acc) \<Rightarrow> Inr (c \<lparr> resolvers := acc \<rparr>)) \<rparr>"

definition demo_config :: "registry \<Rightarrow> pipeline_config" where
  "demo_config reg =
     \<lparr> parse = (\<lambda>sdl. Inr demo_document),
       serialize = (\<lambda>doc. ''type Post @searchable { id: ID! }''),
       directiveRegistry = reg,
       transformers = [demo_transformer],
       strategies = [(''Post'', ''DYNAMODB'')],
       hints = [] \<rparr>"

definition SearchableDirective :: DirectiveSpec where
  "SearchableDirective =
     \<lparr> spec_name = ''searchable'', spec_arguments = [], spec_locations = [OBJECT] \<rparr>"

text \<open>
  A state stays at a stage when it is at that stage or has failed; \<open>successor\<close> is
  the stage that follows a stage.
\<close>

definition stays :: "pipeline_stage \<Rightarrow> pipeline_state \<Rightarrow> bool" where
  "stays s st \<longleftrightarrow> current st = s \<or> isFailed (current st)"

fun successor :: "pipeline_stage \<Rightarrow> pipeline_stage" where
  "successor Parsing = Validating"
| "successor Validating = PerNodeTransform"
| "successor PerNodeTransform = WholeSchemaTransform"
| "successor WholeSchemaTransform = ResolverGeneration"
| "successor ResolverGeneration = FinalValidation"
| "successor FinalValidation = Done"
| "successor Done = Done"
| "successor (Failed e) = Failed e"

chapter \<open>Properties\<close>

section \<open>Allowable instance types\<close>

subsection \<open>Properties of the instance type list\<close>

lemma elasticsearch_instance_types_length: "length elasticsearch_instance_types = 95"
  by (simp add: elasticsearch_instance_types_def)

text \<open>
  Every element of the base array ends in \<^verbatim>\<open>.elasticsearch\<close> (14 characters) and
  \<^verbatim>\<open>replace\<close> turns exactly that suffix into \<^verbatim>\<open>.search\<close>: no instance family
  name contains the pattern earlier in the string.
\<close>

lemma elasticsearch_instance_types_suffix:
  "list_all (\<lambda>t. t = take (length t - 14) t @ ''.elasticsearch'' \<and>
       js_replace ''elasticsearch'' ''search'' t = take (length t - 14) t @ ''.search'')
     elasticsearch_instance_types"
  unfolding elasticsearch_instance_types_def by simp

text \<open>
  Claim C10. \<^verbatim>\<open>ALLOWABLE_SEARCHABLE_INSTANCE_TYPES\<close> is the base array followed by
  the base array with \<^verbatim>\<open>'elasticsearch'\<close> replaced by \<^verbatim>\<open>'search'\<close> in each element;
  it is twice as long as the base array (190 entries); and every base element is some
  prefix followed by \<^verbatim>\<open>.elasticsearch\<close>, its replaced form is the same prefix followed
  by \<^verbatim>\<open>.search\<close>, and both forms are elements of the exported list.
\<close>

theorem ALLOWABLE_SEARCHABLE_INSTANCE_TYPES_contents:
  "ALLOWABLE_SEARCHABLE_INSTANCE_TYPES =
      elasticsearch_instance_types
        @ map (js_replace ''elasticsearch'' ''search'') elasticsearch_instance_types
   \<and> length ALLOWABLE_SEARCHABLE_INSTANCE_TYPES = 2 * length elasticsearch_instance_types
   \<and> length ALLOWABLE_SEARCHABLE_INSTANCE_TYPES = 190
   \<and> (\<forall>t \<in> set elasticsearch_instance_types.
         \<exists>p. t = p @ ''.elasticsearch''
            \<and> js_replace ''elasticsearch'' ''search'' t = p @ ''.search''
            \<and> t \<in> set ALLOWABLE_SEARCHABLE_INSTANCE_TYPES
            \<and> p @ ''.search'' \<in> set ALLOWABLE_SEARCHABLE_INSTANCE_TYPES)"
proof (intro conjI ballI)
  show "ALLOWABLE_SEARCHABLE_INSTANCE_TYPES =
      elasticsearch_instance_types
        @ map (js_replace ''elasticsearch'' ''search'') elasticsearch_instance_types"
    by (simp add: ALLOWABLE_SEARCHABLE_INSTANCE_TYPES_def)
  show "length ALLOWABLE_SEARCHABLE_INSTANCE_TYPES = 2 * length elasticsearch_instance_types"
    by (simp add: ALLOWABLE_SEARCHABLE_INSTANCE_TYPES_def)
  show "length ALLOWABLE_SEARCHABLE_INSTANCE_TYPES = 190"
    by (simp add: ALLOWABLE_SEARCHABLE_INSTANCE_TYPES_def elasticsearch_instance_types_length)
next
  fix t assume t: "t \<in> set elasticsearch_instance_types"
  let ?p = "take (length t - 14) t"
  have both: "t = ?p @ ''.elasticsearch'' \<and>
      js_replace ''elasticsearch'' ''search'' t = ?p @ ''.search''"
    by (rule bspec [OF iffD1 [OF list_all_iff elasticsearch_instance_types_suffix] t])
  then have eq: "t = ?p @ ''.elasticsearch''"
    and rep: "js_replace ''elasticsearch'' ''search'' t = ?p @ ''.search''"
    by (rule conjunct1, rule conjunct2)
  from t have m1: "t \<in> set ALLOWABLE_SEARCHABLE_INSTANCE_TYPES"
    by (simp add: ALLOWABLE_SEARCHABLE_INSTANCE_TYPES_def)
  from t have "js_replace ''elasticsearch'' ''search'' t \<in> set ALLOWABLE_SEARCHABLE_INSTANCE_TYPES"
    by (simp add: ALLOWABLE_SEARCHABLE_INSTANCE_TYPES_def)
  then have m2: "?p @ ''.search'' \<in> set ALLOWABLE_SEARCHABLE_INSTANCE_TYPES"
    by (simp only: rep)
  from eq rep m1 m2
  show "\<exists>p. t = p @ ''.elasticsearch''
            \<and> js_replace ''elasticsearch'' ''search'' t = p @ ''.search''
            \<and> t \<in> set ALLOWABLE_SEARCHABLE_INSTANCE_TYPES
            \<and> p @ ''.search'' \<in> set ALLOWABLE_SEARCHABLE_INSTANCE_TYPES"
    by blast
qed

theorem ALLOWABLE_SEARCHABLE_INSTANCE_TYPES_contents_witness:
  "''t2.small.elasticsearch'' \<in> set elasticsearch_instance_types
   \<and> ''t2.small.elasticsearch'' \<in> set ALLOWABLE_SEARCHABLE_INSTANCE_TYPES
   \<and> ''t2.small.search'' \<in> set ALLOWABLE_SEARCHABLE_INSTANCE_TYPES"
proof -
  have mem: "''t2.small.elasticsearch'' \<in> set elasticsearch_instance_types"
    by (simp add: elasticsearch_instance_types_def)
  from ALLOWABLE_SEARCHABLE_INSTANCE_TYPES_contents mem
  obtain p where p: "''t2.small.elasticsearch'' = p @ ''.elasticsearch''"
    and m1: "''t2.small.elasticsearch'' \<in> set ALLOWABLE_SEARCHABLE_INSTANCE_TYPES"
    and m2: "p @ ''.search'' \<in> set ALLOWABLE_SEARCHABLE_INSTANCE_TYPES"
    by blast
  have split: "''t2.small.elasticsearch'' = ''t2.small'' @ ''.elasticsearch''" by simp
  have "p @ ''.elasticsearch'' = ''t2.small'' @ ''.elasticsearch''"
    by (rule trans [OF sym [OF p] split])
  then have "p = ''t2.small''" by (simp only: append_same_eq)
  with m2 have "''t2.small'' @ ''.search'' \<in> set ALLOWABLE_SEARCHABLE_INSTANCE_TYPES"
    by (simp only:)
  then have "''t2.small.search'' \<in> set ALLOWABLE_SEARCHABLE_INSTANCE_TYPES" by simp
  with mem m1 show ?thesis by (intro conjI)
qed

section \<open>Construction of an AmplifyGraphqlApi\<close>

subsection \<open>Sequencing lemmas\<close>

lemma invoke_Inr: "snd (invoke c r rest) = Inr x \<longleftrightarrow> r = None \<and> snd rest = Inr x"
  by (cases r) simp_all

lemma invoke_Inl:
  "(\<exists>e. snd (invoke c r rest) = Inl e) \<longleftrightarrow> r \<noteq> None \<or> (\<exists>e. snd rest = Inl e)"
  by (cases r) simp_all

lemma invoke_calls: "set (fst (invoke c r rest)) \<subseteq> insert c (set (fst rest))"
  by (cases r) auto

lemma invoke_not_called:
  "x \<noteq> c \<Longrightarrow> x \<notin> set (fst rest) \<Longrightarrow> x \<notin> set (fst (invoke c r rest))"
  using invoke_calls [of c r rest] by auto

lemma foldl_found:
  "foldl (\<lambda>found node. if P node then True else found) b xs \<longleftrightarrow> b \<or> (\<exists>n \<in> set xs. P n)"
  by (induction xs arbitrary: b) auto

lemma validateNoOtherAmplifyGraphqlApiInStack_result:
  assumes "getStackForScope ext scope True = Inr rootStack"
  shows "validateNoOtherAmplifyGraphqlApiInStack ext scope =
           (if \<exists>node \<in> set (walkAndProcessNodes ext rootStack).
                  instanceofAmplifyGraphqlApi ext node \<and> scope \<noteq> node
            then Inl (Error ''Only one AmplifyGraphqlApi is expected in a stack'')
            else Inr ())"
  using assms by (simp add: validateNoOtherAmplifyGraphqlApiInStack_def foldl_found)

lemma AmplifyGraphqlApi_Inr:
  assumes "snd (AmplifyGraphqlApi ext scope id' props) = Inr this"
  shows "superConstruct ext scope id' = Inr this
         \<and> validateNoOtherAmplifyGraphqlApiInStack ext this = Inr ()"
proof (cases "superConstruct ext scope id'")
  case (Inl e)
  with assms show ?thesis by (simp add: AmplifyGraphqlApi_def)
next
  case (Inr this')
  note sup = this
  show ?thesis
  proof (cases "validateNoOtherAmplifyGraphqlApiInStack ext this'")
    case (Inl e)
    with assms sup show ?thesis by (simp add: AmplifyGraphqlApi_def)
  next
    case (Inr u)
    with assms sup have "this' = this"
      by (auto simp: AmplifyGraphqlApi_def Let_def invoke_Inr
               split: if_splits option.splits)
    with sup Inr show ?thesis by simp
  qed
qed

lemma demo_collaborators_sel:
  "superConstruct (demo_collaborators nodes env) scope id' = Inr 2"
  "getStackForScope (demo_collaborators nodes env) scope getRootStack = Inr 0"
  "walkAndProcessNodes (demo_collaborators nodes env) root = nodes"
  "instanceofAmplifyGraphqlApi (demo_collaborators nodes env) node \<longleftrightarrow> node = 1 \<or> node = 2"
  "tryGetContext (demo_collaborators nodes env) node ''amplifyEnvironmentName'' = env"
  "addAmplifyMetadataToStackDescription (demo_collaborators nodes env) scope = None"
  "convertAuthorizationModesToTransformerAuthConfig (demo_collaborators nodes env) p = None"
  "validateFunctionSlots (demo_collaborators nodes env) p = None"
  "separateSlots (demo_collaborators nodes env) p = None"
  "newAssetManager (demo_collaborators nodes env) = None"
  "parseUserDefinedSlots (demo_collaborators nodes env) p = None"
  "convertToResolverConfig (demo_collaborators nodes env) p = None"
  "executeTransform (demo_collaborators nodes env) args = None"
  "newCodegenAssets (demo_collaborators nodes env) this modelSchema = None"
  "getGeneratedResources (demo_collaborators nodes env) this = None"
  "getGeneratedFunctionSlots (demo_collaborators nodes env) = None"
  "storeOutput (demo_collaborators nodes env) this = None"
  by (simp_all add: demo_collaborators_def)

lemma demo_validate:
  "validateNoOtherAmplifyGraphqlApiInStack (demo_collaborators [0, 2] env) 2 = Inr ()"
  by (simp add: validateNoOtherAmplifyGraphqlApiInStack_def demo_collaborators_sel)

text \<open>
  Claim C8. When the new node's root stack is found and the walk over it visits an
  \<^verbatim>\<open>AmplifyGraphqlApi\<close> other than the new node, the constructor throws
  \<^verbatim>\<open>Only one AmplifyGraphqlApi is expected in a stack\<close> before it has called any
  collaborator (in particular before \<^verbatim>\<open>executeTransform\<close>); and whenever the constructor
  returns, the walk over the root stack visits no \<^verbatim>\<open>AmplifyGraphqlApi\<close> but the new one.
\<close>

theorem AmplifyGraphqlApi_only_one_per_stack:
  "(superConstruct ext scope id' = Inr this
      \<and> getStackForScope ext this True = Inr rootStack
      \<and> other \<in> set (walkAndProcessNodes ext rootStack)
      \<and> instanceofAmplifyGraphqlApi ext other \<and> other \<noteq> this
    \<longrightarrow> AmplifyGraphqlApi ext scope id' props =
          ([], Inl (Error ''Only one AmplifyGraphqlApi is expected in a stack'')))
   \<and> (snd (AmplifyGraphqlApi ext scope id' props) = Inr this
      \<and> getStackForScope ext this True = Inr rootStack
    \<longrightarrow> (\<forall>node \<in> set (walkAndProcessNodes ext rootStack).
           instanceofAmplifyGraphqlApi ext node \<longrightarrow> node = this))"
proof (intro conjI impI)
  assume a: "superConstruct ext scope id' = Inr this
      \<and> getStackForScope ext this True = Inr rootStack
      \<and> other \<in> set (walkAndProcessNodes ext rootStack)
      \<and> instanceofAmplifyGraphqlApi ext other \<and> other \<noteq> this"
  then have "\<exists>node \<in> set (walkAndProcessNodes ext rootStack).
                  instanceofAmplifyGraphqlApi ext node \<and> this \<noteq> node"
    by blast
  with a have "validateNoOtherAmplifyGraphqlApiInStack ext this =
                 Inl (Error ''Only one AmplifyGraphqlApi is expected in a stack'')"
    by (simp add: validateNoOtherAmplifyGraphqlApiInStack_result [of ext this rootStack])
  with a show "AmplifyGraphqlApi ext scope id' props =
          ([], Inl (Error ''Only one AmplifyGraphqlApi is expected in a stack''))"
    by (simp add: AmplifyGraphqlApi_def)
next
  assume b: "snd (AmplifyGraphqlApi ext scope id' props) = Inr this
      \<and> getStackForScope ext this True = Inr rootStack"
  then have "validateNoOtherAmplifyGraphqlApiInStack ext this = Inr ()"
    using AmplifyGraphqlApi_Inr [of ext scope id' props this] by simp
  with b have "\<not> (\<exists>node \<in> set (walkAndProcessNodes ext rootStack).
                  instanceofAmplifyGraphqlApi ext node \<and> this \<noteq> node)"
    by (simp add: validateNoOtherAmplifyGraphqlApiInStack_result [of ext this rootStack]
             split: if_splits)
  then show "\<forall>node \<in> set (walkAndProcessNodes ext rootStack).
           instanceofAmplifyGraphqlApi ext node \<longrightarrow> node = this"
    by blast
qed

theorem AmplifyGraphqlApi_only_one_per_stack_witness:
  "AmplifyGraphqlApi (demo_collaborators [0, 1, 2] None) 0 ''api'' demo_props =
     ([], Inl (Error ''Only one AmplifyGraphqlApi is expected in a stack''))
   \<and> snd (AmplifyGraphqlApi (demo_collaborators [0, 2] None) 0 ''api'' demo_props) = Inr 2
   \<and> 0 \<in> set (walkAndProcessNodes (demo_collaborators [0, 2] None) 0)
   \<and> \<not> instanceofAmplifyGraphqlApi (demo_collaborators [0, 2] None) 0"
proof -
  have ok: "snd (AmplifyGraphqlApi (demo_collaborators [0, 2] None) 0 ''api'' demo_props) = Inr 2"
    by (simp add: AmplifyGraphqlApi_def demo_validate demo_collaborators_sel demo_props_def)
  have fails: "AmplifyGraphqlApi (demo_collaborators [0, 1, 2] None) 0 ''api'' demo_props =
     ([], Inl (Error ''Only one AmplifyGraphqlApi is expected in a stack''))"
    using AmplifyGraphqlApi_only_one_per_stack
            [of "demo_collaborators [0, 1, 2] None" 0 "''api''" 2 0 1 demo_props]
    by (simp add: demo_collaborators_sel)
  have walked: "0 \<in> set (walkAndProcessNodes (demo_collaborators [0, 2] None) 0)"
    by (simp add: demo_collaborators_sel)
  have root: "getStackForScope (demo_collaborators [0, 2] None) 2 True = Inr 0"
    by (simp add: demo_collaborators_sel)
  have "\<forall>node \<in> set (walkAndProcessNodes (demo_collaborators [0, 2] None) 0).
         instanceofAmplifyGraphqlApi (demo_collaborators [0, 2] None) node \<longrightarrow> node = 2"
    using AmplifyGraphqlApi_only_one_per_stack
            [of "demo_collaborators [0, 2] None" 0 "''api''" 2 0 1 demo_props] ok root
    by blast
  with walked have "instanceofAmplifyGraphqlApi (demo_collaborators [0, 2] None) 0
      \<longrightarrow> (0::nat) = 2"
    by blast
  then have inv: "\<not> instanceofAmplifyGraphqlApi (demo_collaborators [0, 2] None) 0"
    by simp
  from fails ok walked inv show ?thesis by (intro conjI)
qed

text \<open>
  Claim C9. With the new node created: (1) a context value \<^verbatim>\<open>amplifyEnvironmentName\<close>
  longer than 8 makes the constructor throw, and \<^verbatim>\<open>executeTransform\<close> is not among the
  calls made; (2) when the statements before the check return normally, the error thrown
  is the one of the length check, raised right after \<^verbatim>\<open>separateSlots\<close>; (3) when the
  context value is absent and the statements before \<^verbatim>\<open>executeTransform\<close> return
  normally, \<^verbatim>\<open>executeTransform\<close> is called with \<^verbatim>\<open>amplifyEnvironmentName\<close> equal to
  \<^verbatim>\<open>NONE\<close>.
\<close>

theorem AmplifyGraphqlApi_amplifyEnvironmentName_check:
  "(superConstruct ext scope id' = Inr this
      \<and> tryGetContext ext this ''amplifyEnvironmentName'' = Some name \<and> 8 < length name
    \<longrightarrow> (\<exists>e. snd (AmplifyGraphqlApi ext scope id' props) = Inl e)
        \<and> (\<forall>args. ExecuteTransform args \<notin> set (fst (AmplifyGraphqlApi ext scope id' props))))
   \<and> (superConstruct ext scope id' = Inr this
      \<and> validateNoOtherAmplifyGraphqlApiInStack ext this = Inr ()
      \<and> addAmplifyMetadataToStackDescription ext scope = None
      \<and> convertAuthorizationModesToTransformerAuthConfig ext (others props) = None
      \<and> validateFunctionSlots ext (others props) = None
      \<and> separateSlots ext (others props) = None
      \<and> tryGetContext ext this ''amplifyEnvironmentName'' = Some name \<and> 8 < length name
    \<longrightarrow> AmplifyGraphqlApi ext scope id' props =
          ([AddAmplifyMetadataToStackDescription scope,
            ConvertAuthorizationModesToTransformerAuthConfig,
            ValidateFunctionSlots, SeparateSlots],
           Inl (Error (''or cdk --context env must have a length <= 8, found '' @ name))))
   \<and> (superConstruct ext scope id' = Inr this
      \<and> validateNoOtherAmplifyGraphqlApiInStack ext this = Inr ()
      \<and> addAmplifyMetadataToStackDescription ext scope = None
      \<and> convertAuthorizationModesToTransformerAuthConfig ext (others props) = None
      \<and> validateFunctionSlots ext (others props) = None
      \<and> separateSlots ext (others props) = None
      \<and> tryGetContext ext this ''amplifyEnvironmentName'' = None
      \<and> newAssetManager ext = None
      \<and> parseUserDefinedSlots ext (others props) = None
      \<and> (\<forall>c. conflictResolution props = Some c \<longrightarrow> convertToResolverConfig ext c = None)
    \<longrightarrow> ExecuteTransform
           \<lparr> arg_scope = this, arg_amplifyEnvironmentName = ''NONE'',
             arg_apiName = (case apiName props of Some n \<Rightarrow> n | None \<Rightarrow> id'),
             arg_schema = definition_schema props, arg_others = others props \<rparr>
          \<in> set (fst (AmplifyGraphqlApi ext scope id' props)))"
proof (intro conjI impI allI)
  assume a: "superConstruct ext scope id' = Inr this
      \<and> tryGetContext ext this ''amplifyEnvironmentName'' = Some name \<and> 8 < length name"
  show "\<exists>e. snd (AmplifyGraphqlApi ext scope id' props) = Inl e"
  proof (cases "validateNoOtherAmplifyGraphqlApiInStack ext this")
    case (Inl e)
    with a show ?thesis by (simp add: AmplifyGraphqlApi_def)
  next
    case (Inr u)
    with a show ?thesis by (simp add: AmplifyGraphqlApi_def invoke_Inl)
  qed
next
  fix args
  assume a: "superConstruct ext scope id' = Inr this
      \<and> tryGetContext ext this ''amplifyEnvironmentName'' = Some name \<and> 8 < length name"
  show "ExecuteTransform args \<notin> set (fst (AmplifyGraphqlApi ext scope id' props))"
  proof (cases "validateNoOtherAmplifyGraphqlApiInStack ext this")
    case (Inl e)
    with a show ?thesis by (simp add: AmplifyGraphqlApi_def)
  next
    case (Inr u)
    with a show ?thesis by (simp add: AmplifyGraphqlApi_def invoke_not_called)
  qed
next
  assume "superConstruct ext scope id' = Inr this
      \<and> validateNoOtherAmplifyGraphqlApiInStack ext this = Inr ()
      \<and> addAmplifyMetadataToStackDescription ext scope = None
      \<and> convertAuthorizationModesToTransformerAuthConfig ext (others props) = None
      \<and> validateFunctionSlots ext (others props) = None
      \<and> separateSlots ext (others props) = None
      \<and> tryGetContext ext this ''amplifyEnvironmentName'' = Some name \<and> 8 < length name"
  then show "AmplifyGraphqlApi ext scope id' props =
          ([AddAmplifyMetadataToStackDescription scope,
            ConvertAuthorizationModesToTransformerAuthConfig,
            ValidateFunctionSlots, SeparateSlots],
           Inl (Error (''or cdk --context env must have a length <= 8, found '' @ name)))"
    by (simp add: AmplifyGraphqlApi_def)
next
  assume a: "superConstruct ext scope id' = Inr this
      \<and> validateNoOtherAmplifyGraphqlApiInStack ext this = Inr ()
      \<and> addAmplifyMetadataToStackDescription ext scope = None
      \<and> convertAuthorizationModesToTransformerAuthConfig ext (others props) = None
      \<and> validateFunctionSlots ext (others props) = None
      \<and> separateSlots ext (others props) = None
      \<and> tryGetContext ext this ''amplifyEnvironmentName'' = None
      \<and> newAssetManager ext = None
      \<and> parseUserDefinedSlots ext (others props) = None
      \<and> (\<forall>c. conflictResolution props = Some c \<longrightarrow> convertToResolverConfig ext c = None)"
  show "ExecuteTransform
           \<lparr> arg_scope = this, arg_amplifyEnvironmentName = ''NONE'',
             arg_apiName = (case apiName props of Some n \<Rightarrow> n | None \<Rightarrow> id'),
             arg_schema = definition_schema props, arg_others = others props \<rparr>
          \<in> set (fst (AmplifyGraphqlApi ext scope id' props))"
  proof (cases "conflictResolution props")
    case None
    with a show ?thesis
      by (cases "executeTransform ext \<lparr> arg_scope = this, arg_amplifyEnvironmentName = ''NONE'',
             arg_apiName = (case apiName props of Some n \<Rightarrow> n | None \<Rightarrow> id'),
             arg_schema = definition_schema props, arg_others = others props \<rparr>")
         (simp_all add: AmplifyGraphqlApi_def)
  next
    case (Some c)
    with a show ?thesis
      by (cases "executeTransform ext \<lparr> arg_scope = this, arg_amplifyEnvironmentName = ''NONE'',
             arg_apiName = (case apiName props of Some n \<Rightarrow> n | None \<Rightarrow> id'),
             arg_schema = definition_schema props, arg_others = others props \<rparr>")
         (simp_all add: AmplifyGraphqlApi_def)
  qed
qed

theorem AmplifyGraphqlApi_amplifyEnvironmentName_check_witness:
  "AmplifyGraphqlApi (demo_collaborators [0, 2] (Some ''production'')) 0 ''api'' demo_props =
     ([AddAmplifyMetadataToStackDescription 0,
       ConvertAuthorizationModesToTransformerAuthConfig,
       ValidateFunctionSlots, SeparateSlots],
      Inl (Error ''or cdk --context env must have a length <= 8, found production''))
   \<and> (\<forall>args. ExecuteTransform args \<notin> set (fst
         (AmplifyGraphqlApi (demo_collaborators [0, 2] (Some ''production'')) 0 ''api'' demo_props)))
   \<and> ExecuteTransform
        \<lparr> arg_scope = 2, arg_amplifyEnvironmentName = ''NONE'', arg_apiName = ''api'',
          arg_schema = ''type Todo @model { id: ID! }'', arg_others = () \<rparr>
      \<in> set (fst (AmplifyGraphqlApi (demo_collaborators [0, 2] None) 0 ''api'' demo_props))"
proof -
  note chk = AmplifyGraphqlApi_amplifyEnvironmentName_check
  have long: "AmplifyGraphqlApi (demo_collaborators [0, 2] (Some ''production'')) 0 ''api'' demo_props =
     ([AddAmplifyMetadataToStackDescription 0,
       ConvertAuthorizationModesToTransformerAuthConfig,
       ValidateFunctionSlots, SeparateSlots],
      Inl (Error ''or cdk --context env must have a length <= 8, found production''))"
    using chk [of "demo_collaborators [0, 2] (Some ''production'')" 0 "''api''" 2
                  "''production''" demo_props]
    by (simp add: demo_validate demo_collaborators_sel)
  have notrans: "\<forall>args. ExecuteTransform args \<notin> set (fst
         (AmplifyGraphqlApi (demo_collaborators [0, 2] (Some ''production'')) 0 ''api'' demo_props))"
    using chk [of "demo_collaborators [0, 2] (Some ''production'')" 0 "''api''" 2
                  "''production''" demo_props]
    by (simp add: demo_collaborators_sel)
  have absent: "ExecuteTransform
        \<lparr> arg_scope = 2, arg_amplifyEnvironmentName = ''NONE'', arg_apiName = ''api'',
          arg_schema = ''type Todo @model { id: ID! }'', arg_others = () \<rparr>
      \<in> set (fst (AmplifyGraphqlApi (demo_collaborators [0, 2] None) 0 ''api'' demo_props))"
    using chk [of "demo_collaborators [0, 2] None" 0 "''api''" 2 "''production''" demo_props]
    by (simp add: demo_validate demo_collaborators_sel demo_props_def)
  from long notrans absent show ?thesis by (intro conjI)
qed

section \<open>Slot assignment and resolver keys\<close>

lemma dense_Nil: "dense []"
  by (simp add: dense_def)

lemma dense_slot_less:
  assumes "dense acc" and "e \<in> set acc" and "sameStage t f s e"
  shows "slotIndex e < length (filter (sameStage t f s) acc)"
proof -
  from assms(2,3) have "slotIndex e \<in> set (map slotIndex (filter (sameStage t f s) acc))"
    by auto
  also from assms(1) have "map slotIndex (filter (sameStage t f s) acc)
      = [0 ..< length (filter (sameStage t f s) acc)]"
    by (simp add: dense_def)
  finally show ?thesis by simp
qed

lemma addPipelineEntry_dense:
  assumes "dense acc"
  shows "addPipelineEntry acc t f s contributor lg =
           Inr (length (filter (sameStage t f s) acc),
                acc @ [\<lparr> typeName = t, fieldName = f, stage = s,
                         slotIndex = length (filter (sameStage t f s) acc),
                         contributorId = contributor, logic = lg \<rparr>])"
proof -
  have "find (\<lambda>e. sameStage t f s e \<and> slotIndex e = length (filter (sameStage t f s) acc)) acc
          = None"
    using dense_slot_less [OF assms] by (fastforce simp: find_None_iff)
  then show ?thesis by (simp add: addPipelineEntry_def Let_def)
qed

lemma dense_snoc:
  assumes "dense acc"
  shows "dense (acc @ [\<lparr> typeName = t, fieldName = f, stage = s,
                         slotIndex = length (filter (sameStage t f s) acc),
                         contributorId = contributor, logic = lg \<rparr>])"
  unfolding dense_def
proof (intro allI)
  fix t' f' s'
  let ?e = "\<lparr> typeName = t, fieldName = f, stage = s,
              slotIndex = length (filter (sameStage t f s) acc),
              contributorId = contributor, logic = lg \<rparr>"
  from assms have old: "map slotIndex (filter (sameStage t' f' s') acc)
      = [0 ..< length (filter (sameStage t' f' s') acc)]"
    by (simp add: dense_def)
  show "map slotIndex (filter (sameStage t' f' s') (acc @ [?e]))
      = [0 ..< length (filter (sameStage t' f' s') (acc @ [?e]))]"
  proof (cases "sameStage t' f' s' ?e")
    case True
    then have "t' = t" "f' = f" "s' = s" by (simp_all add: sameStage_def)
    with True old show ?thesis by simp
  next
    case False
    with old show ?thesis by simp
  qed
qed

lemma addPipelineEntries_dense:
  assumes "dense acc"
  shows "\<exists>slots acc'. addPipelineEntries acc cs = Inr (slots, acc')
           \<and> length slots = length cs \<and> dense acc'
           \<and> (\<forall>t f s. slotsOf t f s cs slots =
                 [length (filter (sameStage t f s) acc) ..<
                  length (filter (sameStage t f s) acc)
                    + length (filter (contributesTo t f s) cs)])"
  using assms
proof (induction cs arbitrary: acc)
  case Nil
  then show ?case by (simp add: slotsOf_def)
next
  case (Cons c cs)
  let ?k = "length (filter (sameStage (to_type c) (to_field c) (to_stage c)) acc)"
  let ?e = "\<lparr> typeName = to_type c, fieldName = to_field c, stage = to_stage c,
              slotIndex = ?k, contributorId = by_contributor c, logic = with_logic c \<rparr>"
  let ?acc1 = "acc @ [?e]"
  from Cons.prems have step: "addPipelineEntry acc (to_type c) (to_field c) (to_stage c)
        (by_contributor c) (with_logic c) = Inr (?k, ?acc1)"
    by (rule addPipelineEntry_dense)
  from Cons.prems have d1: "dense ?acc1" by (rule dense_snoc)
  from Cons.IH [OF d1] obtain slots acc' where
    run: "addPipelineEntries ?acc1 cs = Inr (slots, acc')"
    and len: "length slots = length cs" and d': "dense acc'"
    and rest: "\<forall>t f s. slotsOf t f s cs slots =
                 [length (filter (sameStage t f s) ?acc1) ..<
                  length (filter (sameStage t f s) ?acc1)
                    + length (filter (contributesTo t f s) cs)]"
    by blast
  have all: "addPipelineEntries acc (c # cs) = Inr (?k # slots, acc')"
    using step run by simp
  have "slotsOf t f s (c # cs) (?k # slots) =
          [length (filter (sameStage t f s) acc) ..<
           length (filter (sameStage t f s) acc)
             + length (filter (contributesTo t f s) (c # cs))]" for t f s
  proof (cases "contributesTo t f s c")
    case True
    then have k: "?k = length (filter (sameStage t f s) acc)"
      by (simp add: contributesTo_def)
    from True have grow: "length (filter (sameStage t f s) ?acc1)
        = Suc (length (filter (sameStage t f s) acc))"
      by (simp add: sameStage_def contributesTo_def)
    have r: "slotsOf t f s cs slots =
        [Suc (length (filter (sameStage t f s) acc)) ..<
         Suc (length (filter (sameStage t f s) acc)) + length (filter (contributesTo t f s) cs)]"
      using rest [rule_format, of t f s] by (simp only: grow)
    from True have "slotsOf t f s (c # cs) (?k # slots) = ?k # slotsOf t f s cs slots"
      by (simp add: slotsOf_def)
    then have "slotsOf t f s (c # cs) (?k # slots) =
        length (filter (sameStage t f s) acc) #
        [Suc (length (filter (sameStage t f s) acc)) ..<
         Suc (length (filter (sameStage t f s) acc)) + length (filter (contributesTo t f s) cs)]"
      by (simp only: k r)
    moreover have "[n ..< n + Suc m] = n # [Suc n ..< Suc n + m]" for n m :: nat
      by (subst upt_conv_Cons) simp_all
    moreover from True have "length (filter (contributesTo t f s) (c # cs))
        = Suc (length (filter (contributesTo t f s) cs))"
      by simp
    ultimately show ?thesis by (simp only:)
  next
    case False
    then have same: "length (filter (sameStage t f s) ?acc1)
        = length (filter (sameStage t f s) acc)"
      by (simp add: sameStage_def contributesTo_def)
    have r: "slotsOf t f s cs slots =
        [length (filter (sameStage t f s) acc) ..<
         length (filter (sameStage t f s) acc) + length (filter (contributesTo t f s) cs)]"
      using rest [rule_format, of t f s] by (simp only: same)
    from False have "slotsOf t f s (c # cs) (?k # slots) = slotsOf t f s cs slots"
      by (simp add: slotsOf_def)
    then have "slotsOf t f s (c # cs) (?k # slots) =
        [length (filter (sameStage t f s) acc) ..<
         length (filter (sameStage t f s) acc) + length (filter (contributesTo t f s) cs)]"
      by (simp only: r)
    with False show ?thesis by simp
  qed
  with all len d' show ?case by auto
qed

text \<open>
  Claim C1. In a run that starts from the empty accumulator, every call of
  \<^verbatim>\<open>addPipelineEntry\<close> succeeds, and for every (type, field, stage) the slots returned to
  its contributors, in call order and whoever the contributors are, are
  \<open>0, 1, \<dots>, n - 1\<close>, where \<open>n\<close> is the number of contributions to it.
\<close>

theorem addPipelineEntry_slot_monotonicity:
  "\<exists>slots acc. addPipelineEntries [] cs = Inr (slots, acc)
      \<and> length slots = length cs
      \<and> (\<forall>t f s. slotsOf t f s cs slots = [0 ..< length (filter (contributesTo t f s) cs)])"
  using addPipelineEntries_dense [OF dense_Nil, of cs] by auto

theorem addPipelineEntry_slot_monotonicity_witness:
  "(\<exists>acc. addPipelineEntries [] demo_contributions = Inr ([0, 0, 1], acc))
   \<and> slotsOf ''Query'' ''getPost'' ''auth'' demo_contributions [0, 0, 1] = [0, 1]
   \<and> slotsOf ''Query'' ''getPost'' ''postAuth'' demo_contributions [0, 0, 1] = [0]"
proof -
  from addPipelineEntry_slot_monotonicity [of demo_contributions]
  obtain slots acc where r: "addPipelineEntries [] demo_contributions = Inr (slots, acc)"
    and s: "\<forall>t f s. slotsOf t f s demo_contributions slots
              = [0 ..< length (filter (contributesTo t f s) demo_contributions)]"
    by blast
  have "\<exists>acc. addPipelineEntries [] demo_contributions = Inr ([0, 0, 1], acc)"
    by (simp add: demo_contributions_def addPipelineEntry_def sameStage_def)
  with r have slots: "slots = [0, 0, 1]" by auto
  from s have "slotsOf ''Query'' ''getPost'' ''auth'' demo_contributions slots
              = [0 ..< length (filter (contributesTo ''Query'' ''getPost'' ''auth'')
                                 demo_contributions)]"
    by blast
  then have a: "slotsOf ''Query'' ''getPost'' ''auth'' demo_contributions [0, 0, 1] = [0, 1]"
    by (simp add: slots demo_contributions_def contributesTo_def upt_rec)
  from s have "slotsOf ''Query'' ''getPost'' ''postAuth'' demo_contributions slots
              = [0 ..< length (filter (contributesTo ''Query'' ''getPost'' ''postAuth'')
                                 demo_contributions)]"
    by blast
  then have p: "slotsOf ''Query'' ''getPost'' ''postAuth'' demo_contributions [0, 0, 1] = [0]"
    by (simp add: slots demo_contributions_def contributesTo_def upt_rec)
  from \<open>\<exists>acc. addPipelineEntries [] demo_contributions = Inr ([0, 0, 1], acc)\<close> a p
  show ?thesis by (intro conjI)
qed

subsection \<open>Key serialization\<close>

lemma of_char_digit: "d < 10 \<Longrightarrow> of_char (digit d) = 48 + d"
  by (simp add: digit_def)

lemma digit_not_dot: "d < 10 \<Longrightarrow> digit d \<noteq> CHR ''.''"
proof
  assume "d < 10" and "digit d = CHR ''.''"
  then have "(of_char (digit d) :: nat) = of_char CHR ''.''" by simp
  with \<open>d < 10\<close> show False by (simp add: of_char_digit)
qed

lemma show_nat_dotFree: "dotFree (show_nat n)"
proof (induction n rule: show_nat.induct)
  case (1 n)
  show ?case
  proof (cases "n < 10")
    case True
    then show ?thesis
      using digit_not_dot [of n] by (subst show_nat.simps) (auto simp: dotFree_def)
  next
    case False
    with "1" have "dotFree (show_nat (n div 10))" by simp
    with False show ?thesis
      using digit_not_dot [of "n mod 10"]
      by (subst show_nat.simps) (auto simp: dotFree_def)
  qed
qed

lemma read_nat_show_nat: "read_nat (show_nat n) = n"
proof (induction n rule: show_nat.induct)
  case (1 n)
  show ?case
  proof (cases "n < 10")
    case True
    then show ?thesis
      by (subst show_nat.simps) (simp add: read_nat_def of_char_digit)
  next
    case False
    with "1" have "read_nat (show_nat (n div 10)) = n div 10" by simp
    with False show ?thesis
      by (subst show_nat.simps) (simp add: read_nat_def of_char_digit)
  qed
qed

lemma show_nat_inj: "show_nat n = show_nat m \<Longrightarrow> n = m"
  by (metis read_nat_show_nat)

lemma split_at_first:
  "x \<notin> set a \<Longrightarrow> x \<notin> set b \<Longrightarrow> a @ x # r = b @ x # r' \<Longrightarrow> a = b \<and> r = r'"
proof (induction a arbitrary: b)
  case Nil
  then show ?case by (cases b) auto
next
  case (Cons y a)
  then show ?case by (cases b) auto
qed

lemma dot_split:
  assumes "dotFree a" and "dotFree b" and "a @ ''.'' @ r = b @ ''.'' @ r'"
  shows "a = b \<and> r = r'"
  using assms split_at_first [of "CHR ''.''" a b r r'] by (simp add: dotFree_def)

lemma serializeKey_inj:
  assumes "wellNamed e" and "wellNamed e'" and "serializeKey e = serializeKey e'"
  shows "typeName e = typeName e' \<and> fieldName e = fieldName e' \<and> stage e = stage e'
         \<and> slotIndex e = slotIndex e'"
proof -
  from assms(1,2) have d: "dotFree (typeName e)" "dotFree (typeName e')"
      "dotFree (fieldName e)" "dotFree (fieldName e')" "dotFree (stage e)" "dotFree (stage e')"
    by (simp_all add: wellNamed_def)
  from assms(3) have 0: "typeName e @ ''.'' @ (fieldName e @ ''.'' @ stage e @ ''.'' @
       show_nat (slotIndex e) @ ''.req.vtl'') = typeName e' @ ''.'' @ (fieldName e' @ ''.'' @
       stage e' @ ''.'' @ show_nat (slotIndex e') @ ''.req.vtl'')"
    by (simp add: serializeKey_def)
  from dot_split [OF d(1,2) 0] have t: "typeName e = typeName e'"
    and 1: "fieldName e @ ''.'' @ (stage e @ ''.'' @ show_nat (slotIndex e) @ ''.req.vtl'')
          = fieldName e' @ ''.'' @ (stage e' @ ''.'' @ show_nat (slotIndex e') @ ''.req.vtl'')"
    by simp_all
  from dot_split [OF d(3,4) 1] have f: "fieldName e = fieldName e'"
    and 2: "stage e @ ''.'' @ (show_nat (slotIndex e) @ ''.req.vtl'')
          = stage e' @ ''.'' @ (show_nat (slotIndex e') @ ''.req.vtl'')"
    by simp_all
  from dot_split [OF d(5,6) 2] have s: "stage e = stage e'"
    and 3: "show_nat (slotIndex e) @ ''.req.vtl'' = show_nat (slotIndex e') @ ''.req.vtl''"
    by simp_all
  from 3 have "show_nat (slotIndex e) = show_nat (slotIndex e')" by simp
  then have "slotIndex e = slotIndex e'" by (rule show_nat_inj)
  with t f s show ?thesis by simp
qed

lemma show_nat_0: "show_nat 0 = ''0''"
  by code_simp

lemma show_nat_1: "show_nat (Suc 0) = ''1''"
  by code_simp

text \<open>
  Claim C4. The resolver map produced by \<^verbatim>\<open>finalize\<close> is the list of the accumulator's
  entries, rearranged so that slot indices ascend, each entry turned into the pair of its
  key and its logic text, where the key is the entry's type, field, stage and decimal slot
  index joined by dots and followed by \<^verbatim>\<open>.req.vtl\<close>. The format does not depend on
  anything but the tuple, and on names without a dot two entries have the same key only
  if they have the same (type, field, stage, slot).
\<close>

theorem finalize_key_format:
  "(\<exists>es. mset es = mset acc \<and> sorted (map slotIndex es)
        \<and> finalize acc =
            map (\<lambda>e. (typeName e @ ''.'' @ fieldName e @ ''.'' @ stage e @ ''.''
                         @ show_nat (slotIndex e) @ ''.req.vtl'', logic e)) es)
   \<and> (wellNamed e \<and> wellNamed e' \<and> serializeKey e = serializeKey e'
      \<longrightarrow> typeName e = typeName e' \<and> fieldName e = fieldName e' \<and> stage e = stage e'
          \<and> slotIndex e = slotIndex e')"
proof (rule conjI)
  have "mset (sort_key slotIndex acc) = mset acc" by simp
  moreover have "sorted (map slotIndex (sort_key slotIndex acc))" by simp
  moreover have "finalize acc =
            map (\<lambda>e. (typeName e @ ''.'' @ fieldName e @ ''.'' @ stage e @ ''.''
                         @ show_nat (slotIndex e) @ ''.req.vtl'', logic e))
                (sort_key slotIndex acc)"
    by (simp add: finalize_def serializeKey_def)
  ultimately show "\<exists>es. mset es = mset acc \<and> sorted (map slotIndex es)
        \<and> finalize acc =
            map (\<lambda>e. (typeName e @ ''.'' @ fieldName e @ ''.'' @ stage e @ ''.''
                         @ show_nat (slotIndex e) @ ''.req.vtl'', logic e)) es"
    by blast
next
  show "wellNamed e \<and> wellNamed e' \<and> serializeKey e = serializeKey e'
      \<longrightarrow> typeName e = typeName e' \<and> fieldName e = fieldName e' \<and> stage e = stage e'
          \<and> slotIndex e = slotIndex e'"
    using serializeKey_inj [of e e'] by blast
qed

theorem finalize_key_format_witness:
  "finalize demo_accumulator =
     [(''Query.getPost.auth.0.req.vtl'', ''## init''),
      (''Query.getPost.auth.1.req.vtl'', ''## auth check'')]
   \<and> wellNamed (demo_accumulator ! 0)
   \<and> wellNamed ((demo_accumulator ! 0) \<lparr> contributorId := ''custom'' \<rparr>)
   \<and> serializeKey (demo_accumulator ! 0) = ''Query.getPost.auth.1.req.vtl''
   \<and> serializeKey ((demo_accumulator ! 0) \<lparr> contributorId := ''custom'' \<rparr>)
       = ''Query.getPost.auth.1.req.vtl''
   \<and> slotIndex ((demo_accumulator ! 0) \<lparr> contributorId := ''custom'' \<rparr>)
       = slotIndex (demo_accumulator ! 0)"
proof -
  let ?e = "demo_accumulator ! 0"
  let ?e' = "(demo_accumulator ! 0) \<lparr> contributorId := ''custom'' \<rparr>"
  have fin: "finalize demo_accumulator =
     [(''Query.getPost.auth.0.req.vtl'', ''## init''),
      (''Query.getPost.auth.1.req.vtl'', ''## auth check'')]"
    by (simp add: finalize_def serializeKey_def demo_accumulator_def show_nat_0 show_nat_1)
  have wn: "wellNamed ?e"
    by (simp add: wellNamed_def dotFree_def demo_accumulator_def)
  have wn': "wellNamed ?e'"
    by (simp add: wellNamed_def dotFree_def demo_accumulator_def)
  have key: "serializeKey ?e = ''Query.getPost.auth.1.req.vtl''"
    by (simp add: serializeKey_def demo_accumulator_def show_nat_1)
  have key': "serializeKey ?e' = ''Query.getPost.auth.1.req.vtl''"
    by (simp add: serializeKey_def demo_accumulator_def show_nat_1)
  from key key' have same: "serializeKey ?e' = serializeKey ?e" by (simp only:)
  have "slotIndex ?e' = slotIndex ?e"
    using finalize_key_format [of demo_accumulator ?e' ?e] wn wn' same by blast
  with fin wn wn' key key' show ?thesis by (intro conjI)
qed

section \<open>The pipeline\<close>

subsection \<open>Directive gating\<close>

lemma checkDirective_unregistered:
  assumes "directive_name d \<notin> set (map spec_name reg)"
  shows "checkDirective reg loc place d = [(loc, unknownDirective (directive_name d))]"
proof -
  from assms have "find (\<lambda>sp. spec_name sp = directive_name d) reg = None"
    by (force simp: find_None_iff image_iff)
  then show ?thesis by (simp add: checkDirective_def)
qed

lemma checkField_unregistered:
  assumes "d \<in> set (field_directives f)" and "directive_name d \<notin> set (map spec_name reg)"
  shows "(type_name ty @ ''.'' @ field_name f, unknownDirective (directive_name d))
           \<in> set (checkField reg doc ty f)"
proof -
  from assms(2) have "(type_name ty @ ''.'' @ field_name f, unknownDirective (directive_name d))
      \<in> set (checkDirective reg (type_name ty @ ''.'' @ field_name f) FIELD_DEFINITION d)"
    by (simp add: checkDirective_unregistered)
  with assms(1) show ?thesis
    by (auto simp: checkField_def Let_def)
qed

lemma checkType_unregistered:
  assumes "n \<in> set (map directive_name (type_directives ty)
                     @ concat (map (\<lambda>f. map directive_name (field_directives f)) (type_fields ty)))"
    and "n \<notin> set (map spec_name reg)"
  shows "\<exists>loc. (loc, unknownDirective n) \<in> set (checkType reg doc ty)"
proof -
  from assms(1) consider
      (on_type) d where "d \<in> set (type_directives ty)" "directive_name d = n"
    | (on_field) f d where "f \<in> set (type_fields ty)" "d \<in> set (field_directives f)"
        "directive_name d = n"
    by auto
  then show ?thesis
  proof cases
    case on_type
    with assms(2) have "(type_name ty, unknownDirective n)
        \<in> set (checkDirective reg (type_name ty) (locationOfKind (kind ty)) d)"
      by (simp add: checkDirective_unregistered)
    with on_type(1) have "(type_name ty, unknownDirective n) \<in> set (checkType reg doc ty)"
      by (auto simp: checkType_def)
    then show ?thesis ..
  next
    case on_field
    with assms(2) have "(type_name ty @ ''.'' @ field_name f, unknownDirective n)
        \<in> set (checkField reg doc ty f)"
      using checkField_unregistered [of d f reg ty doc] by simp
    with on_field(1) have "(type_name ty @ ''.'' @ field_name f, unknownDirective n)
        \<in> set (checkType reg doc ty)"
      by (auto simp: checkType_def)
    then show ?thesis ..
  qed
qed

lemma validate_unregistered:
  assumes "n \<in> set (directivesUsed doc)" and "n \<notin> set (map spec_name reg)"
  shows "\<exists>loc. (loc, unknownDirective n) \<in> set (validate reg doc)"
proof -
  from assms(1) obtain ty where ty: "ty \<in> set doc"
    and "n \<in> set (map directive_name (type_directives ty)
                     @ concat (map (\<lambda>f. map directive_name (field_directives f)) (type_fields ty)))"
    by (auto simp: directivesUsed_def)
  with assms(2) obtain loc where "(loc, unknownDirective n) \<in> set (checkType reg doc ty)"
    using checkType_unregistered [of n ty reg doc] by blast
  with ty have "(loc, unknownDirective n) \<in> set (validate reg doc)"
    by (auto simp: validate_def)
  then show ?thesis ..
qed

lemma advance_Failed: "current st = Failed e \<Longrightarrow> advance cfg sdl st = st"
  by (simp add: advance_def)

lemma advance_Parsing_ok:
  "parse cfg sdl = Inr doc \<Longrightarrow>
   advance cfg sdl (initial_state cfg) =
     (initial_state cfg) \<lparr> current := Validating,
                            ctx := (ctx (initial_state cfg)) \<lparr> schema := doc \<rparr> \<rparr>"
  by (simp add: advance_def initial_state_def)

lemma run_unfold:
  "run cfg sdl =
     advance cfg sdl (advance cfg sdl (advance cfg sdl (advance cfg sdl (advance cfg sdl
       (advance cfg sdl (initial_state cfg))))))"
  by (simp add: run_def numeral_eq_Suc)

lemma run_validation_failure:
  assumes "parse cfg sdl = Inr doc" and "validate (directiveRegistry cfg) doc \<noteq> []"
  shows "run cfg sdl =
           \<lparr> current = Failed (ValidationError (validate (directiveRegistry cfg) doc)),
             ctx = \<lparr> schema = doc, resolvers = [], dataSourceStrategies = strategies cfg,
                     placementHints = hints cfg \<rparr>,
             invoked = [] \<rparr>"
proof -
  let ?failed = "\<lparr> current = Failed (ValidationError (validate (directiveRegistry cfg) doc)),
             ctx = \<lparr> schema = doc, resolvers = [], dataSourceStrategies = strategies cfg,
                     placementHints = hints cfg \<rparr>,
             invoked = [] \<rparr>"
  from assms(2) obtain e es where errs: "validate (directiveRegistry cfg) doc = e # es"
    by (cases "validate (directiveRegistry cfg) doc") auto
  have 1: "advance cfg sdl (initial_state cfg) =
      \<lparr> current = Validating,
        ctx = \<lparr> schema = doc, resolvers = [], dataSourceStrategies = strategies cfg,
                placementHints = hints cfg \<rparr>,
        invoked = [] \<rparr>"
    using assms(1) by (simp add: advance_def initial_state_def)
  have 2: "advance cfg sdl \<lparr> current = Validating,
        ctx = \<lparr> schema = doc, resolvers = [], dataSourceStrategies = strategies cfg,
                placementHints = hints cfg \<rparr>,
        invoked = [] \<rparr> = ?failed"
    using errs by (simp add: advance_def)
  have 3: "advance cfg sdl ?failed = ?failed"
    by (rule advance_Failed) simp
  show ?thesis by (simp only: run_unfold 1 2 3)
qed

text \<open>
  Claim C6. When the parsed document uses a directive name that the registry does not
  hold, the run ends in \<^verbatim>\<open>Failed\<close> with the validation errors of the document, among
  them the unknown-directive error for that name; no hook has been invoked; the context
  is the one the run started with, holding the document as parsed and the empty
  accumulator; and there is no output.
\<close>

theorem unregistered_directive_fails_before_hooks:
  "parse cfg sdl = Inr doc \<and> n \<in> set (directivesUsed doc)
     \<and> n \<notin> set (map spec_name (directiveRegistry cfg))
   \<longrightarrow> run cfg sdl =
         \<lparr> current = Failed (ValidationError (validate (directiveRegistry cfg) doc)),
           ctx = \<lparr> schema = doc, resolvers = [], dataSourceStrategies = strategies cfg,
                   placementHints = hints cfg \<rparr>,
           invoked = [] \<rparr>
       \<and> (\<exists>loc. (loc, unknownDirective n) \<in> set (validate (directiveRegistry cfg) doc))
       \<and> pipeline_output cfg (run cfg sdl) = None"
proof (rule impI)
  assume a: "parse cfg sdl = Inr doc \<and> n \<in> set (directivesUsed doc)
     \<and> n \<notin> set (map spec_name (directiveRegistry cfg))"
  then obtain loc where loc: "(loc, unknownDirective n) \<in> set (validate (directiveRegistry cfg) doc)"
    using validate_unregistered [of n doc "directiveRegistry cfg"] by blast
  then have ne: "validate (directiveRegistry cfg) doc \<noteq> []" by auto
  from a have p: "parse cfg sdl = Inr doc" by simp
  have r: "run cfg sdl =
         \<lparr> current = Failed (ValidationError (validate (directiveRegistry cfg) doc)),
           ctx = \<lparr> schema = doc, resolvers = [], dataSourceStrategies = strategies cfg,
                   placementHints = hints cfg \<rparr>,
           invoked = [] \<rparr>"
    by (rule run_validation_failure [OF p ne])
  then have "pipeline_output cfg (run cfg sdl) = None"
    by (simp add: pipeline_output_def)
  with r loc show "run cfg sdl =
         \<lparr> current = Failed (ValidationError (validate (directiveRegistry cfg) doc)),
           ctx = \<lparr> schema = doc, resolvers = [], dataSourceStrategies = strategies cfg,
                   placementHints = hints cfg \<rparr>,
           invoked = [] \<rparr>
       \<and> (\<exists>loc. (loc, unknownDirective n) \<in> set (validate (directiveRegistry cfg) doc))
       \<and> pipeline_output cfg (run cfg sdl) = None"
    by blast
qed

lemma demo_config_sel:
  "parse (demo_config reg) sdl = Inr demo_document"
  "directiveRegistry (demo_config reg) = reg"
  "transformers (demo_config reg) = [demo_transformer]"
  "strategies (demo_config reg) = [(''Post'', ''DYNAMODB'')]"
  "hints (demo_config reg) = []"
  "serialize (demo_config reg) doc = ''type Post @searchable { id: ID! }''"
  by (simp_all add: demo_config_def)

lemma demo_validate_unregistered:
  "validate [PredictionsDirective] demo_document = [(''Post'', ''Unknown directive @searchable'')]"
  by (simp add: validate_def checkType_def checkField_def checkDirective_def
        demo_document_def PredictionsDirective_def unknownDirective_def builtInScalars_def)

theorem unregistered_directive_fails_before_hooks_witness:
  "run (demo_config [PredictionsDirective]) ''type Post @searchable { id: ID! }'' =
     \<lparr> current = Failed (ValidationError [(''Post'', ''Unknown directive @searchable'')]),
       ctx = \<lparr> schema = demo_document, resolvers = [],
               dataSourceStrategies = [(''Post'', ''DYNAMODB'')], placementHints = [] \<rparr>,
       invoked = [] \<rparr>
   \<and> pipeline_output (demo_config [PredictionsDirective])
        (run (demo_config [PredictionsDirective]) ''type Post @searchable { id: ID! }'') = None"
proof -
  have used: "''searchable'' \<in> set (directivesUsed demo_document)"
    by (simp add: directivesUsed_def demo_document_def)
  have unreg: "''searchable'' \<notin> set (map spec_name [PredictionsDirective])"
    by (simp add: PredictionsDirective_def)
  have prem: "parse (demo_config [PredictionsDirective]) ''type Post @searchable { id: ID! }''
        = Inr demo_document
      \<and> ''searchable'' \<in> set (directivesUsed demo_document)
      \<and> ''searchable'' \<notin> set (map spec_name (directiveRegistry (demo_config [PredictionsDirective])))"
    using used unreg by (simp add: demo_config_sel)
  note concl = mp [OF unregistered_directive_fails_before_hooks
         [of "demo_config [PredictionsDirective]" "''type Post @searchable { id: ID! }''"
             demo_document "''searchable''"] prem]
  from concl have "run (demo_config [PredictionsDirective]) ''type Post @searchable { id: ID! }'' =
     \<lparr> current = Failed (ValidationError
                 (validate (directiveRegistry (demo_config [PredictionsDirective])) demo_document)),
       ctx = \<lparr> schema = demo_document, resolvers = [],
               dataSourceStrategies = strategies (demo_config [PredictionsDirective]),
               placementHints = hints (demo_config [PredictionsDirective]) \<rparr>,
       invoked = [] \<rparr>"
    by (rule conjunct1)
  then have r: "run (demo_config [PredictionsDirective]) ''type Post @searchable { id: ID! }'' =
     \<lparr> current = Failed (ValidationError [(''Post'', ''Unknown directive @searchable'')]),
       ctx = \<lparr> schema = demo_document, resolvers = [],
               dataSourceStrategies = [(''Post'', ''DYNAMODB'')], placementHints = [] \<rparr>,
       invoked = [] \<rparr>"
    by (simp only: demo_config_sel demo_validate_unregistered)
  from concl have o: "pipeline_output (demo_config [PredictionsDirective])
        (run (demo_config [PredictionsDirective]) ''type Post @searchable { id: ID! }'') = None"
    by (rule conjunct2 [OF conjunct2])
  from r o show ?thesis by (rule conjI)
qed

text \<open>
  The same document with \<^verbatim>\<open>@searchable\<close> registered runs through every stage: the hooks
  are invoked in stage order and the resolver map holds the contributed entry.
\<close>

lemma demo_validate_registered:
  "validate [PredictionsDirective, SearchableDirective] demo_document = []"
  by (simp add: validate_def checkType_def checkField_def checkDirective_def checkArguments_def
        demo_document_def PredictionsDirective_def SearchableDirective_def builtInScalars_def)

lemma run_registered_directive:
  "current (run (demo_config [PredictionsDirective, SearchableDirective]) sdl) = Done
   \<and> invoked (run (demo_config [PredictionsDirective, SearchableDirective]) sdl) =
       [OnTypeDefinition ''searchable'' ''Post'' ''searchable'',
        TransformSchema ''searchable'', GenerateResolvers ''searchable'']
   \<and> pipeline_output (demo_config [PredictionsDirective, SearchableDirective])
        (run (demo_config [PredictionsDirective, SearchableDirective]) sdl) =
       Some (''type Post @searchable { id: ID! }'',
             [(''Query.searchPosts.auth.0.req.vtl'', ''## search'')])"
proof -
  let ?cfg = "demo_config [PredictionsDirective, SearchableDirective]"
  let ?c0 = "\<lparr> schema = demo_document, resolvers = [],
               dataSourceStrategies = [(''Post'', ''DYNAMODB'')], placementHints = [] \<rparr>"
  let ?e = "\<lparr> typeName = ''Query'', fieldName = ''searchPosts'', stage = ''auth'',
              slotIndex = 0, contributorId = ''searchable'', logic = ''## search'' \<rparr>"
  have 1: "advance ?cfg sdl (initial_state ?cfg) =
             \<lparr> current = Validating, ctx = ?c0, invoked = [] \<rparr>"
    by (simp add: advance_def initial_state_def demo_config_sel)
  have 2: "advance ?cfg sdl \<lparr> current = Validating, ctx = ?c0, invoked = [] \<rparr> =
             \<lparr> current = PerNodeTransform, ctx = ?c0, invoked = [] \<rparr>"
    by (simp add: advance_def demo_config_sel demo_validate_registered)
  have 3: "advance ?cfg sdl \<lparr> current = PerNodeTransform, ctx = ?c0, invoked = [] \<rparr> =
             \<lparr> current = WholeSchemaTransform, ctx = ?c0,
               invoked = [OnTypeDefinition ''searchable'' ''Post'' ''searchable''] \<rparr>"
    by (simp add: advance_def demo_config_sel perNodeTransform_def visitType_def visitField_def
          invokeHook_def next_stage_def demo_document_def demo_transformer_def)
  have 4: "advance ?cfg sdl \<lparr> current = WholeSchemaTransform, ctx = ?c0,
               invoked = [OnTypeDefinition ''searchable'' ''Post'' ''searchable''] \<rparr> =
             \<lparr> current = ResolverGeneration, ctx = ?c0,
               invoked = [OnTypeDefinition ''searchable'' ''Post'' ''searchable'',
                          TransformSchema ''searchable''] \<rparr>"
    by (simp add: advance_def demo_config_sel wholeSchemaTransform_def
          invokeHook_def next_stage_def demo_transformer_def)
  have 5: "advance ?cfg sdl \<lparr> current = ResolverGeneration, ctx = ?c0,
               invoked = [OnTypeDefinition ''searchable'' ''Post'' ''searchable'',
                          TransformSchema ''searchable''] \<rparr> =
             \<lparr> current = FinalValidation, ctx = ?c0 \<lparr> resolvers := [?e] \<rparr>,
               invoked = [OnTypeDefinition ''searchable'' ''Post'' ''searchable'',
                          TransformSchema ''searchable'', GenerateResolvers ''searchable''] \<rparr>"
    by (simp add: advance_def demo_config_sel resolverGeneration_def
          invokeHook_def next_stage_def demo_transformer_def addPipelineEntry_def sameStage_def)
  have 6: "advance ?cfg sdl \<lparr> current = FinalValidation, ctx = ?c0 \<lparr> resolvers := [?e] \<rparr>,
               invoked = [OnTypeDefinition ''searchable'' ''Post'' ''searchable'',
                          TransformSchema ''searchable'', GenerateResolvers ''searchable''] \<rparr> =
             \<lparr> current = Done, ctx = ?c0 \<lparr> resolvers := [?e] \<rparr>,
               invoked = [OnTypeDefinition ''searchable'' ''Post'' ''searchable'',
                          TransformSchema ''searchable'', GenerateResolvers ''searchable''] \<rparr>"
    by (simp add: advance_def demo_config_sel demo_validate_registered)
  have r: "run ?cfg sdl = \<lparr> current = Done, ctx = ?c0 \<lparr> resolvers := [?e] \<rparr>,
               invoked = [OnTypeDefinition ''searchable'' ''Post'' ''searchable'',
                          TransformSchema ''searchable'', GenerateResolvers ''searchable''] \<rparr>"
    by (simp only: run_unfold 1 2 3 4 5 6)
  show ?thesis
    by (simp add: r pipeline_output_def demo_config_sel finalize_def serializeKey_def show_nat_0)
qed

subsection \<open>Every run ends in a terminal state\<close>

lemma stays_invokeHook: "stays s st \<Longrightarrow> stays s (invokeHook call hook wrap st)"
  by (auto simp: stays_def invokeHook_def split: sum.splits)

lemma stays_foldl:
  assumes "\<And>x st. stays s st \<Longrightarrow> stays s (f st x)"
  shows "stays s st \<Longrightarrow> stays s (foldl f st xs)"
  by (induction xs arbitrary: st) (simp_all add: assms)

lemma stays_visitField: "stays s st \<Longrightarrow> stays s (visitField T ty f st)"
  unfolding visitField_def by (rule stays_foldl) (rule stays_invokeHook)

lemma stays_visitType: "stays s st \<Longrightarrow> stays s (visitType T ty st)"
  unfolding visitType_def
  by (rule stays_foldl, rule stays_visitField, assumption)
     (rule stays_foldl, rule stays_invokeHook, assumption)

lemma stays_perNodeTransform: "stays s st \<Longrightarrow> stays s (perNodeTransform Ts st)"
  unfolding perNodeTransform_def
  by (rule stays_foldl, rule stays_foldl, rule stays_visitType)

lemma stays_wholeSchemaTransform: "stays s st \<Longrightarrow> stays s (wholeSchemaTransform Ts st)"
  unfolding wholeSchemaTransform_def by (rule stays_foldl) (rule stays_invokeHook)

lemma stays_resolverGeneration: "stays s st \<Longrightarrow> stays s (resolverGeneration Ts st)"
  unfolding resolverGeneration_def by (rule stays_foldl) (rule stays_invokeHook)

lemma stays_next_stage: "stays s st \<Longrightarrow> stays s' (next_stage s' st)"
  by (auto simp: stays_def next_stage_def)

lemma advance_progress:
  assumes "stays s st"
  shows "stays (successor s) (advance cfg sdl st)"
proof (cases "isFailed (current st)")
  case True
  then obtain e where "current st = Failed e" by (cases "current st") auto
  then show ?thesis by (simp add: advance_Failed stays_def)
next
  case False
  with assms have cur: "current st = s" by (simp add: stays_def)
  show ?thesis
  proof (cases s)
    case Parsing
    with cur show ?thesis by (simp add: advance_def stays_def split: sum.splits)
  next
    case Validating
    with cur show ?thesis by (simp add: advance_def stays_def split: list.splits)
  next
    case PerNodeTransform
    with cur assms show ?thesis
      by (auto simp: advance_def intro: stays_next_stage [OF stays_perNodeTransform])
  next
    case WholeSchemaTransform
    with cur assms show ?thesis
      by (auto simp: advance_def intro: stays_next_stage [OF stays_wholeSchemaTransform])
  next
    case ResolverGeneration
    with cur assms show ?thesis
      by (auto simp: advance_def intro: stays_next_stage [OF stays_resolverGeneration])
  next
    case FinalValidation
    with cur show ?thesis by (simp add: advance_def stays_def split: list.splits)
  next
    case Done
    with cur show ?thesis by (simp add: advance_def stays_def)
  next
    case (Failed e)
    with cur show ?thesis by (simp add: advance_def stays_def)
  qed
qed

lemma run_terminal: "current (run cfg sdl) = Done \<or> isFailed (current (run cfg sdl))"
proof -
  have 0: "stays Parsing (initial_state cfg)"
    by (simp add: stays_def initial_state_def)
  have "stays Done (run cfg sdl)"
    unfolding run_unfold
    using advance_progress [OF advance_progress [OF advance_progress [OF advance_progress
            [OF advance_progress [OF advance_progress [OF 0]]]]], of cfg sdl cfg sdl cfg sdl
            cfg sdl cfg sdl cfg sdl]
    by simp
  then show ?thesis by (simp add: stays_def)
qed

end
